theory Spec2Isabelle
  imports Main
begin

section \<open>Values, errors and the outside world\<close>

text \<open>
  The library handles values decoded from JSON and passed as keyword arguments.  They are
  modelled by \<open>pyval\<close>: \<open>None\<close>, booleans, unbounded integers, strings, lists and
  dictionaries with string keys (an association list in the order of iteration, its keys
  distinct, read with \<open>map_of\<close>).  Floating point numbers are left out.
\<close>

datatype pyval =
    PyNone
  | PyBool bool
  | PyInt int
  | PyStr string
  | PyList "pyval list"
  | PyDict "(string \<times> pyval) list"

text \<open>
  Every exception the modelled code raises is a constructor; the payload is the message
  or key the source passes.  \<open>IOError\<close> stands for the class and its subclasses.
\<close>

datatype error =
    StopIteration string
  | IndexError
  | KeyError string
  | TypeError
  | ValueError
  | ZeroDivisionError
  | AttributeError string
  | AssertionError string
  | NotImplementedError
  | IOError
  | UnicodeEncodeError
  | UnicodeDecodeError
  | APIResponseError string
  | SolrResponseParseError string

text \<open>
  Python's \<open>==\<close> on these values: \<open>True == 1\<close> and \<open>False == 0\<close>, lists compare
  elementwise, dictionaries compare by key set and by the value under each key, values of
  unrelated types are different.
\<close>

lemma size_map_of_less:
  "map_of xs k = Some v \<Longrightarrow> size v < Suc (size_list (size_prod (\<lambda>_. 0) size) xs)"
  by (induction xs) (auto split: if_splits)

lemma size_zip_left_less:
  "(x, y) \<in> set (zip xs ys) \<Longrightarrow> size x < Suc (size_list size xs)"
proof -
  assume "(x, y) \<in> set (zip xs ys)"
  then have "x \<in> set xs" by (rule set_zip_leftD)
  then show ?thesis by (induction xs) auto
qed

function (sequential) py_eq :: "pyval \<Rightarrow> pyval \<Rightarrow> bool" where
  "py_eq PyNone PyNone = True"
| "py_eq (PyBool a) (PyBool b) = (a = b)"
| "py_eq (PyBool a) (PyInt j) = ((if a then 1 else 0) = j)"
| "py_eq (PyInt i) (PyBool b) = (i = (if b then 1 else 0))"
| "py_eq (PyInt i) (PyInt j) = (i = j)"
| "py_eq (PyStr s) (PyStr t) = (s = t)"
| "py_eq (PyList xs) (PyList ys) =
     (length xs = length ys \<and> list_all (\<lambda>(x, y). py_eq x y) (zip xs ys))"
| "py_eq (PyDict xs) (PyDict ys) =
     (set (map fst xs) = set (map fst ys) \<and>
      list_all (\<lambda>k. case map_of xs k of
                       None \<Rightarrow> False
                     | Some a \<Rightarrow> (case map_of ys k of None \<Rightarrow> False | Some b \<Rightarrow> py_eq a b))
               (map fst xs))"
| "py_eq _ _ = False"
  by pat_completeness auto
termination
  by (relation "measure (\<lambda>(a, b). size a)")
     (auto simp: size_map_of_less size_zip_left_less)

text \<open>
  Subscription \<open>v[k]\<close> with a string key: a dictionary answers or raises \<open>KeyError\<close>,
  anything else raises \<open>TypeError\<close>.
\<close>

fun getitem :: "pyval \<Rightarrow> string \<Rightarrow> error + pyval" where
  "getitem (PyDict kvs) k = (case map_of kvs k of None \<Rightarrow> Inl (KeyError k) | Some v \<Rightarrow> Inr v)"
| "getitem _ k = Inl TypeError"

text \<open>Iteration \<open>for x in v\<close>: lists give their elements, dictionaries their keys,
  strings their characters; the other values are not iterable.\<close>

fun py_iter :: "pyval \<Rightarrow> error + pyval list" where
  "py_iter (PyList xs) = Inr xs"
| "py_iter (PyDict kvs) = Inr (map (\<lambda>kv. PyStr (fst kv)) kvs)"
| "py_iter (PyStr s) = Inr (map (\<lambda>c. PyStr [c]) s)"
| "py_iter _ = Inl TypeError"

text \<open>
  \<open>n >= v\<close> for an integer \<open>n\<close>.  Python 3 refuses to order an integer and a
  non-number; Python 2 orders \<open>None\<close> below every number and every number below the values
  of the other types.
\<close>

fun int_ge :: "bool \<Rightarrow> int \<Rightarrow> pyval \<Rightarrow> error + bool" where
  "int_ge py3 n (PyInt m) = Inr (m \<le> n)"
| "int_ge py3 n (PyBool b) = Inr ((if b then 1 else 0) \<le> n)"
| "int_ge py3 n PyNone = (if py3 then Inl TypeError else Inr True)"
| "int_ge py3 n _ = (if py3 then Inl TypeError else Inr False)"

text \<open>
  The outside world is written down as it is observed: the parameter dictionaries of the
  HTTP requests sent so far, and the warnings issued so far.
\<close>

record query_params =
  qp_q :: "string option"
  qp_fq :: "pyval option"
  qp_fl :: "pyval option"
  qp_sort :: "pyval option"
  qp_start :: "int option"
  qp_rows :: "int option"

record world =
  requests :: "query_params list"
  warnings :: "string list"

definition warn :: "string \<Rightarrow> world \<Rightarrow> world" where
  "warn msg w = w\<lparr>warnings := warnings w @ [msg]\<rparr>"

record http_response =
  resp_ok :: bool
  resp_text :: string
  resp_headers :: "(string \<times> string) list"

text \<open>
  What the code takes from its runtime and from the network: the interpreter generation
  (the source's own \<open>PY3\<close> flag), \<open>json.loads\<close> (\<open>None\<close> when the text is not JSON),
  \<open>"{}".format\<close> on a value, \<open>str.strip\<close>, the names of the attributes that the
  interpreter gives every object, and the answer of
  \<open>session.get(HTTP_ENDPOINT, params=...)\<close> given the requests already sent.
\<close>

record platform =
  PY3 :: bool
  json_loads :: "string \<Rightarrow> pyval option"
  str_format :: "pyval \<Rightarrow> string"
  str_strip :: "string \<Rightarrow> string"
  object_attributes :: "string list"
  respond :: "query_params list \<Rightarrow> query_params \<Rightarrow> http_response"

definition session_get :: "platform \<Rightarrow> query_params \<Rightarrow> world \<Rightarrow> http_response \<times> world" where
  "session_get P req w = (respond P (requests w) req, w\<lparr>requests := requests w @ [req]\<rparr>)"

section \<open>Article\<close>

text \<open>
  An \<open>Article\<close> is modelled by its instance dictionary \<open>__dict__\<close>: the entry \<open>_raw\<close>,
  which holds the keyword dictionary the record was built from, and the entries that
  \<open>setattr\<close> stored.  \<open>bibtex\<close>, \<open>references\<close>, \<open>citations\<close> and \<open>metrics\<close> are
  read-only properties of the class: \<open>setattr\<close> on them raises, reading them raises
  \<open>NotImplementedError\<close>.
\<close>

record article =
  attrs :: "string \<rightharpoonup> pyval"

definition readonly_properties :: "string list" where
  "readonly_properties = [''bibtex'', ''references'', ''citations'', ''metrics'']"

definition ascii_name :: "string \<Rightarrow> bool" where
  "ascii_name k = list_all (\<lambda>c. of_char c < (128 :: nat)) k"

text \<open>
  \<open>setattr(self, key, value)\<close> on an article whose instance dictionary is \<open>d\<close>.  A key
  that is a Python 2 \<open>unicode\<close> string is encoded to ASCII first, which raises
  \<open>UnicodeEncodeError\<close> when it has a character outside ASCII.  The read-only properties
  have no setter.  Of the attributes that every object has, \<open>__class__\<close> takes a class
  only, which no value here is, \<open>__weakref__\<close> is not writable, and \<open>__dict__\<close> takes a
  dictionary only, which then replaces the instance dictionary (and is written to by the
  \<open>setattr\<close> calls that follow; the document it came from is not followed any further
  here).  Every other key, \<open>_raw\<close>, the names of the methods and the names of the cached
  properties among them, becomes an entry of the instance dictionary.
\<close>

definition setattr ::
  "bool \<Rightarrow> string \<Rightarrow> pyval \<Rightarrow> (string \<rightharpoonup> pyval) \<Rightarrow> error + (string \<rightharpoonup> pyval)" where
  "setattr unicode_key key v d =
     (if unicode_key \<and> \<not> ascii_name key then Inl UnicodeEncodeError
      else if key \<in> set readonly_properties then Inl (AttributeError key)
      else if key = ''__class__'' then Inl TypeError
      else if key = ''__weakref__'' then Inl (AttributeError key)
      else if key = ''__dict__''
      then (case v of PyDict kvs \<Rightarrow> Inr (map_of kvs) | _ \<Rightarrow> Inl TypeError)
      else Inr (d(key \<mapsto> v)))"

text \<open>The loop \<open>for key, value in six.iteritems(kwargs): setattr(self, key, value)\<close>.\<close>

fun set_attributes ::
  "bool \<Rightarrow> (string \<times> pyval) list \<Rightarrow> (string \<rightharpoonup> pyval) \<Rightarrow> error + (string \<rightharpoonup> pyval)" where
  "set_attributes unicode_keys [] d = Inr d"
| "set_attributes unicode_keys (kv # rest) d =
     (case setattr unicode_keys (fst kv) (snd kv) d of
        Inl e \<Rightarrow> Inl e
      | Inr d1 \<Rightarrow> set_attributes unicode_keys rest d1)"

text \<open>The record that \<open>Article(**kwargs)\<close> builds when it returns.\<close>

definition Article_of :: "(string \<times> pyval) list \<Rightarrow> article" where
  "Article_of kwargs =
     \<lparr>attrs = (case set_attributes False kwargs [''_raw'' \<mapsto> PyDict kwargs] of
                 Inl e \<Rightarrow> [''_raw'' \<mapsto> PyDict kwargs]
               | Inr d \<Rightarrow> d)\<rparr>"

definition id_warning :: "(string \<times> pyval) list \<Rightarrow> world \<Rightarrow> world" where
  "id_warning kwargs w =
     (if map_of kwargs ''id'' = None
      then warn ''No article id found -- on-demand attribute lookup will fail'' w
      else w)"

text \<open>
  \<open>Article(**kwargs)\<close>.  The signature is \<open>__init__(self, **kwargs)\<close>: a keyword named
  \<open>self\<close> is bound twice, and the call raises \<open>TypeError\<close> before the body runs.
  \<open>unicode_keys\<close> says that the keys are Python 2 \<open>unicode\<close> strings, as the keys of a
  decoded JSON document are under Python 2.
\<close>

definition Article_init ::
  "bool \<Rightarrow> (string \<times> pyval) list \<Rightarrow> world \<Rightarrow> (error + article) \<times> world" where
  "Article_init unicode_keys kwargs w =
     (if map_of kwargs ''self'' \<noteq> None then (Inl TypeError, w)
      else case set_attributes unicode_keys kwargs [''_raw'' \<mapsto> PyDict kwargs] of
             Inl e \<Rightarrow> (Inl e, id_warning kwargs w)
           | Inr d \<Rightarrow> (Inr \<lparr>attrs = d\<rparr>, id_warning kwargs w))"

definition Article_eq :: "article \<Rightarrow> article \<Rightarrow> error + bool" where
  "Article_eq self other =
     (case attrs self ''bibcode'' of
        None \<Rightarrow> Inl TypeError
      | Some x \<Rightarrow>
          (case attrs other ''bibcode'' of
             None \<Rightarrow> Inl TypeError
           | Some y \<Rightarrow>
               if x = PyNone \<or> y = PyNone then Inl TypeError
               else Inr (py_eq x y)))"

definition Article_ne :: "article \<Rightarrow> article \<Rightarrow> error + bool" where
  "Article_ne self other =
     (case Article_eq self other of Inl e \<Rightarrow> Inl e | Inr b \<Rightarrow> Inr (\<not> b))"

section \<open>Responses\<close>

text \<open>
  \<open>APIResponse.response\<close> is \<open>None\<close> on the class, the \<open>response\<close> object of the JSON
  body once \<open>SolrResponse.__init__\<close> has run, and the HTTP response once
  \<open>load_http_response\<close> has attached it.
\<close>

datatype response_attr =
    NoResponse
  | JsonResponse pyval
  | HttpResponse http_response

record api_response =
  response :: response_attr

record solr_response = api_response +
  sr_raw :: string
  json :: pyval
  sr_articles :: "article list option"
  responseHeader :: pyval
  params :: pyval
  numFound :: pyval
  docs :: pyval

text \<open>\<open>"{}".format(e)\<close> for a \<open>KeyError\<close> \<open>e\<close> is the key between single quotes.\<close>

definition key_repr :: "string \<Rightarrow> string" where
  "key_repr k = CHR 0x27 # k @ [CHR 0x27]"

definition bind_err :: "error + 'a \<Rightarrow> ('a \<Rightarrow> error + 'b) \<Rightarrow> error + 'b" where
  "bind_err m f = (case m of Inl e \<Rightarrow> Inl e | Inr x \<Rightarrow> f x)"

text \<open>The body of the \<open>try\<close> block of \<open>SolrResponse.__init__\<close>: five subscriptions, in
  the order of the source.\<close>

definition envelope_fields :: "pyval \<Rightarrow> error + (pyval \<times> pyval \<times> pyval \<times> pyval \<times> pyval)" where
  "envelope_fields j =
     bind_err (getitem j ''responseHeader'') (\<lambda>rh.
     bind_err (bind_err (getitem j ''responseHeader'') (\<lambda>rh'. getitem rh' ''params'')) (\<lambda>ps.
     bind_err (getitem j ''response'') (\<lambda>r.
     bind_err (getitem r ''numFound'') (\<lambda>n.
     bind_err (getitem r ''docs'') (\<lambda>d.
     Inr (rh, ps, r, n, d))))))"

definition SolrResponse_init :: "platform \<Rightarrow> string \<Rightarrow> error + solr_response" where
  "SolrResponse_init P body =
     (case json_loads P body of
        None \<Rightarrow> Inl ValueError
      | Some j \<Rightarrow>
          (case envelope_fields j of
             Inl (KeyError k) \<Rightarrow> Inl (SolrResponseParseError (key_repr k))
           | Inl e \<Rightarrow> Inl e
           | Inr (rh, ps, r, n, d) \<Rightarrow>
               Inr \<lparr>response = JsonResponse r, sr_raw = body, json = j, sr_articles = None,
                    responseHeader = rh, params = ps, numFound = n, docs = d\<rparr>))"

text \<open>The loop of the \<open>articles\<close> getter: each document is passed to \<open>Article(**doc)\<close>
  and appended; an exception leaves the list as far as it got.  The documents come from
  \<open>json.loads\<close>, whose strings are \<open>unicode\<close> under Python 2.\<close>

fun append_articles ::
  "bool \<Rightarrow> pyval list \<Rightarrow> article list \<Rightarrow> world
     \<Rightarrow> error option \<times> article list \<times> world" where
  "append_articles py3 [] acc w = (None, acc, w)"
| "append_articles py3 (PyDict kwargs # rest) acc w =
     (case Article_init (\<not> py3) kwargs w of
        (Inl e, w1) \<Rightarrow> (Some e, acc, w1)
      | (Inr a, w1) \<Rightarrow> append_articles py3 rest (acc @ [a]) w1)"
| "append_articles py3 (doc # rest) acc w = (Some TypeError, acc, w)"

definition SolrResponse_articles ::
  "platform \<Rightarrow> solr_response \<Rightarrow> world \<Rightarrow> (error + article list) \<times> solr_response \<times> world" where
  "SolrResponse_articles P sr w =
     (case sr_articles sr of
        Some as \<Rightarrow> (Inr as, sr, w)
      | None \<Rightarrow>
          (case py_iter (docs sr) of
             Inl e \<Rightarrow> (Inl e, sr\<lparr>sr_articles := Some []\<rparr>, w)
           | Inr ds \<Rightarrow>
               (case append_articles (PY3 P) ds [] w of
                  (Some e, acc, w1) \<Rightarrow> (Inl e, sr\<lparr>sr_articles := Some acc\<rparr>, w1)
                | (None, acc, w1) \<Rightarrow> (Inr acc, sr\<lparr>sr_articles := Some acc\<rparr>, w1))))"

text \<open>The class method \<open>load_http_response\<close>; \<open>cls\<close> is the constructor of the class it
  is called on.\<close>

definition load_http_response ::
  "(string \<Rightarrow> error + 'a api_response_scheme) \<Rightarrow> http_response
     \<Rightarrow> error + 'a api_response_scheme" where
  "load_http_response cls r =
     (if \<not> resp_ok r then Inl (APIResponseError (resp_text r))
      else case cls (resp_text r) of
             Inl e \<Rightarrow> Inl e
           | Inr c \<Rightarrow> Inr (c\<lparr>response := HttpResponse r\<rparr>))"

text \<open>
  A keyword dictionary that \<open>Article(**kwargs)\<close> accepts under either Python, with every
  keyword stored in the instance dictionary: the names are ASCII, and none of them is
  \<open>self\<close>, \<open>__class__\<close>, \<open>__dict__\<close>, \<open>__weakref__\<close> or a read-only property.  Then the
  warnings that wrapping a list of such documents issues.
\<close>

definition reserved_names :: "string list" where
  "reserved_names =
     ''self'' # ''__class__'' # ''__dict__'' # ''__weakref__'' # readonly_properties"

definition settable :: "(string \<times> pyval) list \<Rightarrow> bool" where
  "settable kwargs =
     list_all (\<lambda>kv. ascii_name (fst kv) \<and> fst kv \<notin> set reserved_names) kwargs"

text \<open>The keyword dictionaries for which \<open>Article(**kwargs)\<close> returns.\<close>

definition accepted :: "bool \<Rightarrow> (string \<times> pyval) list \<Rightarrow> bool" where
  "accepted unicode_keys kwargs =
     (map_of kwargs ''self'' = None
      \<and> \<not> isl (set_attributes unicode_keys kwargs [''_raw'' \<mapsto> PyDict kwargs]))"

definition wrap_warnings :: "(string \<times> pyval) list list \<Rightarrow> world \<Rightarrow> world" where
  "wrap_warnings ks w = fold id_warning ks w"

section \<open>BaseQuery: the token\<close>

text \<open>
  The token property reads the process environment and the file system; the two lists of
  names come from the configuration module.  \<open>read_file f\<close> is the outcome of
  \<open>with open(f) as fp: fp.read()\<close>: the text of the file, or the exception that
  \<open>open\<close> or \<open>read\<close> raises, \<open>IOError\<close> for a file that cannot be opened,
  \<open>UnicodeDecodeError\<close> for one that Python 3 cannot decode.
\<close>

record credential_sources =
  environ :: "string \<rightharpoonup> string"
  read_file :: "string \<Rightarrow> error + string"
  TOKEN_ENVIRON_VARS :: "string list"
  TOKEN_FILES :: "string list"

record base_query =
  bq_token :: "string option"

fun first_environ :: "(string \<rightharpoonup> string) \<Rightarrow> string list \<Rightarrow> string option" where
  "first_environ env [] = None"
| "first_environ env (name # names) =
     (case env name of Some v \<Rightarrow> Some v | None \<Rightarrow> first_environ env names)"

text \<open>The loop over \<open>TOKEN_FILES\<close>: \<open>except IOError: pass\<close> goes on to the next file,
  any other exception leaves the loop and the property.\<close>

fun first_file :: "(string \<Rightarrow> error + string) \<Rightarrow> string list \<Rightarrow> (error + string) option" where
  "first_file fs [] = None"
| "first_file fs (f # files) =
     (case fs f of
        Inr content \<Rightarrow> Some (Inr content)
      | Inl e \<Rightarrow> if e = IOError then first_file fs files else Some (Inl e))"

definition token ::
  "platform \<Rightarrow> credential_sources \<Rightarrow> 'a base_query_scheme \<Rightarrow> world
     \<Rightarrow> (error + string option) \<times> 'a base_query_scheme \<times> world" where
  "token P C self w =
     (case bq_token self of
        Some t \<Rightarrow> (Inr (Some t), self, w)
      | None \<Rightarrow>
          (case first_environ (environ C) (TOKEN_ENVIRON_VARS C) of
             Some v \<Rightarrow> (Inr (Some v), self\<lparr>bq_token := Some v\<rparr>, w)
           | None \<Rightarrow>
               (case first_file (read_file C) (TOKEN_FILES C) of
                  Some (Inr content) \<Rightarrow>
                    (Inr (Some (str_strip P content)),
                     self\<lparr>bq_token := Some (str_strip P content)\<rparr>, w)
                | Some (Inl e) \<Rightarrow> (Inl e, self, w)
                | None \<Rightarrow> (Inr None, self, warn ''No token found'' w))))"

definition token_setter :: "'a base_query_scheme \<Rightarrow> string option \<Rightarrow> 'a base_query_scheme" where
  "token_setter self v = self\<lparr>bq_token := v\<rparr>"

section \<open>SearchQuery\<close>

record search_query = base_query +
  sq_articles :: "article list"
  sq_response :: "solr_response option"
  max_pages :: int
  iter_counter :: nat
  sq_query :: query_params

text \<open>The arguments of the constructor.  \<open>query_dict\<close> and the keyword parameters are
  typed: \<open>q\<close> is a string, \<open>start\<close> and \<open>rows\<close> are integers, an entry that is \<open>None\<close> is
  an absent one, and the extra keyword arguments have string values.\<close>

record sq_args =
  query_dict :: "query_params option"
  arg_q :: "string option"
  arg_fq :: "pyval option"
  arg_fl :: "pyval option"
  arg_sort :: "pyval option"
  arg_start :: "int option"
  arg_rows :: "int option"
  arg_max_pages :: int
  arg_kwargs :: "(string \<times> string) list"

definition DEFAULT_FIELDS :: pyval where
  "DEFAULT_FIELDS =
     PyList [PyStr ''author'', PyStr ''first_author'', PyStr ''bibcode'', PyStr ''id'',
             PyStr ''year'']"

definition default_args :: sq_args where
  "default_args =
     \<lparr>query_dict = None, arg_q = None, arg_fq = None, arg_fl = Some DEFAULT_FIELDS,
      arg_sort = None, arg_start = Some 0, arg_rows = Some 50, arg_max_pages = 3,
      arg_kwargs = []\<rparr>"

definition kwarg_term :: "string \<times> string \<Rightarrow> string" where
  "kwarg_term kv = fst kv @ '':'' @ [CHR 0x22] @ snd kv @ [CHR 0x22]"

fun join_space :: "string list \<Rightarrow> string" where
  "join_space [] = []"
| "join_space [x] = x"
| "join_space (x # y # ys) = x @ '' '' @ join_space (y # ys)"

text \<open>The dictionary \<open>_query\<close> as it stands before the two assertions.\<close>

definition build_query :: "sq_args \<Rightarrow> query_params" where
  "build_query args =
     (case query_dict args of
        Some d \<Rightarrow>
          d\<lparr>qp_rows := (case qp_rows d of None \<Rightarrow> Some 50 | Some r \<Rightarrow> Some r),
            qp_start := (case qp_start d of None \<Rightarrow> Some 0 | Some st \<Rightarrow> Some st)\<rparr>
      | None \<Rightarrow>
          (let q0 = (case arg_q args of None \<Rightarrow> [] | Some t \<Rightarrow> t)
           in \<lparr>qp_q = Some (if arg_kwargs args = [] then q0
                            else q0 @ '' '' @ join_space (map kwarg_term (arg_kwargs args))),
               qp_fq = arg_fq args, qp_fl = arg_fl args, qp_sort = arg_sort args,
               qp_start = arg_start args, qp_rows = arg_rows args\<rparr>))"

definition SearchQuery_init :: "bool \<Rightarrow> sq_args \<Rightarrow> error + search_query" where
  "SearchQuery_init py3 args =
     (let qry = build_query args
      in case qp_rows qry of
           None \<Rightarrow> if py3 then Inl TypeError
                   else Inl (AssertionError ''rows must be greater than 0'')
         | Some r \<Rightarrow>
             if \<not> r > 0 then Inl (AssertionError ''rows must be greater than 0'')
             else (case qp_q qry of
                     None \<Rightarrow> Inl (AssertionError ''q must not be empty'')
                   | Some t \<Rightarrow>
                       if t = [] then Inl (AssertionError ''q must not be empty'')
                       else Inr \<lparr>bq_token = None, sq_articles = [], sq_response = None,
                                 max_pages = arg_max_pages args, iter_counter = 0,
                                 sq_query = qry\<rparr>))"

definition execute ::
  "platform \<Rightarrow> search_query \<Rightarrow> world \<Rightarrow> (error + unit) \<times> search_query \<times> world" where
  "execute P self w =
     (case session_get P (sq_query self) w of
        (r, w1) \<Rightarrow>
          (case load_http_response (SolrResponse_init P) r of
             Inl e \<Rightarrow> (Inl e, self, w1)
           | Inr sr \<Rightarrow>
               (case SolrResponse_articles P sr w1 of
                  (Inl e, sr1, w2) \<Rightarrow> (Inl e, self\<lparr>sq_response := Some sr1\<rparr>, w2)
                | (Inr as, sr1, w2) \<Rightarrow>
                    (let s1 = self\<lparr>sq_response := Some sr1,
                                   sq_articles := sq_articles self @ as\<rparr>
                     in case qp_start (sq_query s1) of
                          None \<Rightarrow> (Inl (KeyError ''start''), s1, w2)
                        | Some st \<Rightarrow>
                            (case qp_rows (sq_query s1) of
                               None \<Rightarrow> (Inl (KeyError ''rows''), s1, w2)
                             | Some r \<Rightarrow>
                                 (Inr (),
                                  s1\<lparr>sq_query := (sq_query s1)\<lparr>qp_start := Some (st + r)\<rparr>\<rparr>,
                                  w2))))))"

text \<open>\<open>math.ceil(len(self.articles)/self.query['rows'])\<close>: the division is the true
  division in Python 3, taken exactly, and the floor division in Python 2.\<close>

definition page_number :: "bool \<Rightarrow> nat \<Rightarrow> int \<Rightarrow> error + int" where
  "page_number py3 n r =
     (if r = 0 then Inl ZeroDivisionError
      else Inr (if py3 then - ((- int n) div r) else int n div r))"

text \<open>The \<open>try\<close> statement of \<open>__next__\<close> with the increment and the \<open>return\<close> after
  it: the record under the cursor, or the handler of the \<open>IndexError\<close>.\<close>

definition try_next ::
  "platform \<Rightarrow> search_query \<Rightarrow> world \<Rightarrow> (error + article) \<times> search_query \<times> world" where
  "try_next P self w =
     (if iter_counter self < length (sq_articles self)
      then (Inr (sq_articles self ! iter_counter self),
            self\<lparr>iter_counter := Suc (iter_counter self)\<rparr>, w)
      else
        (case sq_response self of
           None \<Rightarrow> (Inl (AttributeError ''numFound''), self, w)
         | Some sr \<Rightarrow>
             (case int_ge (PY3 P) (int (length (sq_articles self))) (numFound sr) of
                Inl e \<Rightarrow> (Inl e, self, w)
              | Inr True \<Rightarrow> (Inl (StopIteration ''All records found''), self, w)
              | Inr False \<Rightarrow>
                  (case qp_rows (sq_query self) of
                     None \<Rightarrow> (Inl (KeyError ''rows''), self, w)
                   | Some r \<Rightarrow>
                       (case page_number (PY3 P) (length (sq_articles self)) r of
                          Inl e \<Rightarrow> (Inl e, self, w)
                        | Inr page \<Rightarrow>
                            if page > max_pages self
                            then (Inl (StopIteration ''Maximum number of pages queried''),
                                  self, w)
                            else
                              (case execute P self w of
                                 (Inl e, s2, w2) \<Rightarrow> (Inl e, s2, w2)
                               | (Inr u2, s2, w2) \<Rightarrow>
                                   if iter_counter s2 < length (sq_articles s2)
                                   then (Inr (sq_articles s2 ! iter_counter s2),
                                         s2\<lparr>iter_counter := Suc (iter_counter s2)\<rparr>, w2)
                                   else (Inl IndexError, s2, w2)))))))"

definition SearchQuery_next ::
  "platform \<Rightarrow> search_query \<Rightarrow> world \<Rightarrow> (error + article) \<times> search_query \<times> world" where
  "SearchQuery_next P self w =
     (case (if sq_response self = None then execute P self w else (Inr (), self, w)) of
        (Inl e, s1, w1) \<Rightarrow> (Inl e, s1, w1)
      | (Inr u, s1, w1) \<Rightarrow> try_next P s1 w1)"

section \<open>Attributes of an article\<close>

text \<open>
  Reading an attribute gives a value of the instance dictionary, or something that the
  class or the interpreter provides under that name: a bound method, the docstring, the
  class, the instance dictionary itself.  The latter are named, not represented.
\<close>

datatype attribute =
    Value pyval
  | Provided string

text \<open>The eighteen attributes declared with \<open>cached_property\<close>, and the other names
  that the class statement binds: the methods, \<open>__doc__\<close> and \<open>__module__\<close>.\<close>

definition lazy_fields :: "string list" where
  "lazy_fields =
     [''abstract'', ''aff'', ''author'', ''citation_count'', ''bibstem'', ''database'',
      ''identifier'', ''first_author_norm'', ''issue'', ''keyword'', ''page'', ''property'',
      ''pub'', ''pubdate'', ''read_count'', ''title'', ''volume'', ''year'']"

definition class_attributes :: "string list" where
  "class_attributes =
     [''__init__'', ''__str__'', ''__unicode__'', ''__eq__'', ''__ne__'', ''keys'', ''items'',
      ''iteritems'', ''build_reference_tree'', ''build_citation_tree'', ''_get_field'',
      ''__doc__'', ''__module__'']"

definition back_query_args :: "platform \<Rightarrow> pyval \<Rightarrow> string \<Rightarrow> sq_args" where
  "back_query_args P idv field =
     default_args\<lparr>arg_q := Some (''id:'' @ str_format P idv), arg_fl := Some (PyStr field)\<rparr>"

text \<open>\<open>d[k] = v\<close> on a dictionary: the entry is replaced where it is, or added at the
  end.\<close>

fun dict_set :: "string \<Rightarrow> pyval \<Rightarrow> (string \<times> pyval) list \<Rightarrow> (string \<times> pyval) list" where
  "dict_set k v [] = [(k, v)]"
| "dict_set k v (kv # kvs) = (if fst kv = k then (k, v) # kvs else kv # dict_set k v kvs)"

text \<open>
  \<open>getattr(self, name)\<close>, the name being a native string.  The descriptors that carry
  a setter come first: the read-only properties raise, and \<open>__class__\<close>, \<open>__dict__\<close> and
  \<open>__weakref__\<close> are the interpreter's.  Then comes the instance dictionary.  A cached
  property that is not there calls \<open>_get_field\<close> and stores the result there, so that
  reading it again finds it.  Then come the other names of the class and the attributes
  that every object has, and a name that is none of these raises \<open>AttributeError\<close>.

  \<open>_get_field\<close> reads the same attribute of the record that the back-query returns,
  which may resolve lazily in its turn: the recursion is bounded by fuel.  The result
  \<open>None\<close> says that the model does not follow the call to its end: the fuel ran out, or
  \<open>_get_field\<close> was called with a name under which the returned record has a method or
  another object that is not a value; the cached properties, the callers the source
  intends, pass their own names, which are no such names.
\<close>

fun Article_getattr ::
  "nat \<Rightarrow> platform \<Rightarrow> article \<Rightarrow> string \<Rightarrow> world
     \<Rightarrow> ((error + attribute) \<times> article \<times> world) option"
and Article_get_field ::
  "nat \<Rightarrow> platform \<Rightarrow> article \<Rightarrow> string \<Rightarrow> world
     \<Rightarrow> ((error + pyval) \<times> article \<times> world) option" where
  "Article_getattr fuel P self name w =
     (if name \<in> set readonly_properties then Some (Inl NotImplementedError, self, w)
      else if name \<in> {''__class__'', ''__dict__'', ''__weakref__''}
      then Some (Inr (Provided name), self, w)
      else case attrs self name of
             Some v \<Rightarrow> Some (Inr (Value v), self, w)
           | None \<Rightarrow>
               if name \<in> set lazy_fields
               then (case Article_get_field fuel P self name w of
                       None \<Rightarrow> None
                     | Some (Inl e, s1, w1) \<Rightarrow> Some (Inl e, s1, w1)
                     | Some (Inr v, s1, w1) \<Rightarrow>
                         Some (Inr (Value v), s1\<lparr>attrs := (attrs s1)(name \<mapsto> v)\<rparr>, w1))
               else if name \<in> set class_attributes \<or> name \<in> set (object_attributes P)
               then Some (Inr (Provided name), self, w)
               else Some (Inl (AttributeError name), self, w))"
| "Article_get_field fuel P self field w =
     (case attrs self ''id'' of
        None \<Rightarrow> Some (Inl (APIResponseError ''Cannot query an article without an id''), self, w)
      | Some idv \<Rightarrow>
          if idv = PyNone
          then Some (Inl (APIResponseError ''Cannot query an article without an id''), self, w)
          else
            (case SearchQuery_init (PY3 P) (back_query_args P idv field) of
               Inl e \<Rightarrow> Some (Inl e, self, w)
             | Inr sq \<Rightarrow>
                 (case SearchQuery_next P sq w of
                    (Inl e, sq1, w1) \<Rightarrow> Some (Inl e, self, w1)
                  | (Inr r, sq1, w1) \<Rightarrow>
                      (case fuel of
                         0 \<Rightarrow> None
                       | Suc n \<Rightarrow>
                           (case Article_getattr n P r field w1 of
                              None \<Rightarrow> None
                            | Some (Inl e, r1, w2) \<Rightarrow> Some (Inl e, self, w2)
                            | Some (Inr (Provided k), r1, w2) \<Rightarrow> None
                            | Some (Inr (Value v), r1, w2) \<Rightarrow>
                                (case attrs self ''_raw'' of
                                   None \<Rightarrow> Some (Inl (AttributeError ''_raw''), self, w2)
                                 | Some (PyDict kvs) \<Rightarrow>
                                     Some (Inr v,
                                           self\<lparr>attrs := (attrs self)
                                                  (''_raw'' \<mapsto> PyDict (dict_set field v kvs))\<rparr>,
                                           w2)
                                 | Some other \<Rightarrow> Some (Inl TypeError, self, w2)))))))"

section \<open>Callers\<close>

text \<open>\<open>k\<close> calls of \<open>execute()\<close> in a row; the first exception ends them.\<close>

fun execute_times ::
  "nat \<Rightarrow> platform \<Rightarrow> search_query \<Rightarrow> world \<Rightarrow> (error + unit) \<times> search_query \<times> world" where
  "execute_times 0 P s w = (Inr (), s, w)"
| "execute_times (Suc k) P s w =
     (case execute P s w of
        (Inl e, s1, w1) \<Rightarrow> (Inl e, s1, w1)
      | (Inr u, s1, w1) \<Rightarrow> execute_times k P s1 w1)"

text \<open>\<open>list(sq)\<close>: \<open>__next__\<close> is called until it raises; the records it returned and
  the exception that ended the loop are kept.  At most \<open>n\<close> calls are made, and no
  exception in the result says that all \<open>n\<close> returned a record.\<close>

fun drain ::
  "nat \<Rightarrow> platform \<Rightarrow> search_query \<Rightarrow> world
     \<Rightarrow> article list \<times> error option \<times> search_query \<times> world" where
  "drain 0 P s w = ([], None, s, w)"
| "drain (Suc n) P s w =
     (case SearchQuery_next P s w of
        (Inl e, s1, w1) \<Rightarrow> ([], Some e, s1, w1)
      | (Inr a, s1, w1) \<Rightarrow>
          (case drain n P s1 w1 of (as, e, s2, w2) \<Rightarrow> (a # as, e, s2, w2)))"

text \<open>A caller that interleaves \<open>next(sq)\<close> with assignments to \<open>sq.max_pages\<close>; the
  outcome of every \<open>next\<close> is kept, in order.\<close>

datatype call = Next | SetMaxPages int

fun play ::
  "platform \<Rightarrow> call list \<Rightarrow> search_query \<Rightarrow> world
     \<Rightarrow> (error + article) list \<times> search_query \<times> world" where
  "play P [] s w = ([], s, w)"
| "play P (Next # cs) s w =
     (case SearchQuery_next P s w of
        (out, s1, w1) \<Rightarrow>
          (case play P cs s1 w1 of (outs, s2, w2) \<Rightarrow> (out # outs, s2, w2)))"
| "play P (SetMaxPages m # cs) s w = play P cs (s\<lparr>max_pages := m\<rparr>) w"

fun yielded :: "(error + article) list \<Rightarrow> article list" where
  "yielded [] = []"
| "yielded (Inr a # outs) = a # yielded outs"
| "yielded (Inl e # outs) = yielded outs"

text \<open>The message of the \<open>StopIteration\<close> a call ended with, if it ended with one.\<close>

fun stop_message :: "error + 'a \<Rightarrow> string option" where
  "stop_message (Inl (StopIteration m)) = Some m"
| "stop_message _ = None"

text \<open>
  A search service holding the result set \<open>ds\<close>: every request with a start offset
  \<open>st \<ge> 0\<close> and a page size \<open>r > 0\<close> is answered with a 2xx response whose body
  parses to an envelope with \<open>numFound = len(ds)\<close> and \<open>docs = ds[st:st+r]\<close>.
\<close>

definition serves :: "platform \<Rightarrow> (string \<times> pyval) list list \<Rightarrow> bool" where
  "serves P ds \<longleftrightarrow>
     (\<forall>log req st r. qp_start req = Some st \<and> qp_rows req = Some r \<and> 0 \<le> st \<and> 0 < r \<longrightarrow>
        resp_ok (respond P log req) \<and>
        (\<exists>sr. SolrResponse_init P (resp_text (respond P log req)) = Inr sr
              \<and> numFound sr = PyInt (int (length ds))
              \<and> docs sr = PyList (map PyDict (take (nat r) (drop (nat st) ds)))))"

section \<open>A search service for the examples\<close>

text \<open>The body of a page is written as \<open>st\<close> letters \<open>s\<close> followed by \<open>r\<close> letters
  \<open>r\<close>; the decoder reads the two numbers back and builds the envelope.  The examples
  format string identifiers only, so the formatter of the example platform gives every
  other value a placeholder, and they read four of the attributes that the interpreter
  gives every object.\<close>

definition example_envelope :: "(string \<times> pyval) list list \<Rightarrow> nat \<Rightarrow> nat \<Rightarrow> pyval" where
  "example_envelope ds st r =
     PyDict [(''responseHeader'', PyDict [(''status'', PyInt 0), (''params'', PyDict [])]),
             (''response'',
                PyDict [(''numFound'', PyInt (int (length ds))),
                        (''start'', PyInt (int st)),
                        (''docs'', PyList (map PyDict (take r (drop st ds))))])]"

definition example_loads :: "(string \<times> pyval) list list \<Rightarrow> string \<Rightarrow> pyval option" where
  "example_loads ds body =
     (if set body \<subseteq> {CHR ''s'', CHR ''r''}
      then Some (example_envelope ds (length (filter (\<lambda>c. c = CHR ''s'') body))
                   (length (filter (\<lambda>c. c = CHR ''r'') body)))
      else None)"

text \<open>The \<open>str.strip\<close> of the examples, whose texts have no blank characters but tab,
  line feed, vertical tab, form feed, carriage return and space.\<close>

definition strip_blanks :: "string \<Rightarrow> string" where
  "strip_blanks s =
     rev (dropWhile (\<lambda>c. c \<in> {CHR 0x09, CHR 0x0A, CHR 0x0B, CHR 0x0C, CHR 0x0D, CHR 0x20})
            (rev (dropWhile
                    (\<lambda>c. c \<in> {CHR 0x09, CHR 0x0A, CHR 0x0B, CHR 0x0C, CHR 0x0D, CHR 0x20}) s)))"

definition example_respond :: "query_params list \<Rightarrow> query_params \<Rightarrow> http_response" where
  "example_respond log req =
     (case (qp_start req, qp_rows req) of
        (Some st, Some r) \<Rightarrow>
          \<lparr>resp_ok = True,
           resp_text = replicate (nat st) CHR ''s'' @ replicate (nat r) CHR ''r'',
           resp_headers = []\<rparr>
      | _ \<Rightarrow> \<lparr>resp_ok = False, resp_text = ''Bad Request'', resp_headers = []\<rparr>)"

definition example_platform :: "bool \<Rightarrow> (string \<times> pyval) list list \<Rightarrow> platform" where
  "example_platform py3 ds =
     \<lparr>PY3 = py3, json_loads = example_loads ds,
      str_format = (\<lambda>v. case v of PyStr t \<Rightarrow> t | _ \<Rightarrow> ''?''),
      str_strip = strip_blanks,
      object_attributes = [''__repr__'', ''__hash__'', ''__getattribute__'', ''__setattr__''],
      respond = example_respond\<rparr>"

fun example_docs :: "nat \<Rightarrow> (string \<times> pyval) list list" where
  "example_docs 0 = []"
| "example_docs (Suc n) = example_docs n @ [[(''id'', PyInt (int n))]]"

text \<open>\<open>SearchQuery(q="unittest", rows=2, max_pages=0)\<close>.\<close>

definition two_row_query :: search_query where
  "two_row_query =
     \<lparr>bq_token = None, sq_articles = [], sq_response = None, max_pages = 0, iter_counter = 0,
      sq_query = \<lparr>qp_q = Some ''unittest'', qp_fq = None, qp_fl = Some DEFAULT_FIELDS,
                  qp_sort = None, qp_start = Some 0, qp_rows = Some 2\<rparr>\<rparr>"

text \<open>A result set of one document that carries an abstract.\<close>

definition abstract_docs :: "(string \<times> pyval) list list" where
  "abstract_docs = [[(''abstract'', PyStr ''We present the results''), (''id'', PyStr ''1'')]]"

definition empty_world :: world where
  "empty_world = \<lparr>requests = [], warnings = []\<rparr>"

text \<open>A platform whose decoder answers \<open>j\<close> whatever the body.\<close>

definition platform_decoding :: "pyval \<Rightarrow> platform" where
  "platform_decoding j =
     \<lparr>PY3 = True, json_loads = (\<lambda>body. Some j),
      str_format = (\<lambda>v. case v of PyStr t \<Rightarrow> t | _ \<Rightarrow> ''?''),
      str_strip = strip_blanks,
      object_attributes = [''__repr__'', ''__hash__'', ''__getattribute__'', ''__setattr__''],
      respond = example_respond\<rparr>"

text \<open>The query of the iteration test, \<open>SearchQuery(q="unittest", rows=1, max_pages=20)\<close>.\<close>

definition example_query :: search_query where
  "example_query =
     \<lparr>bq_token = None, sq_articles = [], sq_response = None, max_pages = 20, iter_counter = 0,
      sq_query = \<lparr>qp_q = Some ''unittest'', qp_fq = None, qp_fl = Some DEFAULT_FIELDS,
                  qp_sort = None, qp_start = Some 0, qp_rows = Some 1\<rparr>\<rparr>"

text \<open>Credential sources for the examples: two variable names and two file names, with
  different contents of the environment and of the files.\<close>

definition sources_empty_variable :: credential_sources where
  "sources_empty_variable =
     \<lparr>environ = [''ADS_API_TOKEN'' \<mapsto> '''', ''ADS_DEV_KEY'' \<mapsto> ''secret''],
      read_file = (\<lambda>f. Inl IOError),
      TOKEN_ENVIRON_VARS = [''ADS_API_TOKEN'', ''ADS_DEV_KEY''],
      TOKEN_FILES = [''~/.ads/token'', ''~/.ads/dev_key'']\<rparr>"

definition sources_blank_file :: credential_sources where
  "sources_blank_file =
     \<lparr>environ = Map.empty,
      read_file = (\<lambda>f. if f = ''~/.ads/token'' then Inr [CHR 0x20, CHR 0x0A]
                       else if f = ''~/.ads/dev_key'' then Inr ''secret'' else Inl IOError),
      TOKEN_ENVIRON_VARS = [''ADS_API_TOKEN'', ''ADS_DEV_KEY''],
      TOKEN_FILES = [''~/.ads/token'', ''~/.ads/dev_key'']\<rparr>"

definition sources_none :: credential_sources where
  "sources_none =
     \<lparr>environ = Map.empty, read_file = (\<lambda>f. Inl IOError),
      TOKEN_ENVIRON_VARS = [''ADS_API_TOKEN'', ''ADS_DEV_KEY''],
      TOKEN_FILES = [''~/.ads/token'', ''~/.ads/dev_key'']\<rparr>"

definition sources_dev_key_file :: credential_sources where
  "sources_dev_key_file =
     \<lparr>environ = Map.empty,
      read_file = (\<lambda>f. if f = ''~/.ads/dev_key'' then Inr (''secret'' @ [CHR 0x0A])
                       else Inl IOError),
      TOKEN_ENVIRON_VARS = [''ADS_API_TOKEN'', ''ADS_DEV_KEY''],
      TOKEN_FILES = [''~/.ads/token'', ''~/.ads/dev_key'']\<rparr>"

definition sources_undecodable :: credential_sources where
  "sources_undecodable =
     \<lparr>environ = Map.empty,
      read_file = (\<lambda>f. if f = ''~/.ads/token'' then Inl UnicodeDecodeError
                       else if f = ''~/.ads/dev_key'' then Inr ''secret'' else Inl IOError),
      TOKEN_ENVIRON_VARS = [''ADS_API_TOKEN'', ''ADS_DEV_KEY''],
      TOKEN_FILES = [''~/.ads/token'', ''~/.ads/dev_key'']\<rparr>"

definition fresh_base_query :: base_query where
  "fresh_base_query = \<lparr>bq_token = None\<rparr>"

section \<open>The state of a query against a search service\<close>

text \<open>
  What holds of a query that pages through the result set \<open>ds\<close> with page size \<open>r\<close>:
  after \<open>k\<close> pages the start offset is \<open>k * r\<close>, the accumulated records are the first
  \<open>k * r\<close> documents wrapped, the cursor is within them, and the last response reports
  \<open>len(ds)\<close> matches.
\<close>

definition paging :: "(string \<times> pyval) list list \<Rightarrow> int \<Rightarrow> nat \<Rightarrow> search_query \<Rightarrow> bool" where
  "paging ds r k s \<longleftrightarrow>
     0 < r \<and> qp_rows (sq_query s) = Some r
     \<and> qp_start (sq_query s) = Some (int k * r)
     \<and> sq_articles s = map Article_of (take (k * nat r) ds)
     \<and> iter_counter s \<le> length (sq_articles s)
     \<and> (\<forall>sr. sq_response s = Some sr \<longrightarrow> numFound sr = PyInt (int (length ds)))"

section \<open>Comparing articles\<close>

lemma Article_eq_usable:
  assumes "attrs a ''bibcode'' = Some x" and "attrs b ''bibcode'' = Some y"
    and "x \<noteq> PyNone" and "y \<noteq> PyNone"
  shows "Article_eq a b = Inr (py_eq x y)"
  using assms by (simp add: Article_eq_def)

lemma Article_eq_unusable:
  assumes "attrs a ''bibcode'' = None \<or> attrs a ''bibcode'' = Some PyNone
         \<or> attrs b ''bibcode'' = None \<or> attrs b ''bibcode'' = Some PyNone"
  shows "Article_eq a b = Inl TypeError"
  using assms by (auto simp: Article_eq_def split: option.splits)

lemma Article_eq_InrD:
  assumes "Article_eq a b = Inr v"
  shows "\<exists>x y. attrs a ''bibcode'' = Some x \<and> attrs b ''bibcode'' = Some y
           \<and> x \<noteq> PyNone \<and> y \<noteq> PyNone \<and> v = py_eq x y"
  using assms by (auto simp: Article_eq_def split: option.splits if_splits)

text \<open>
  C5.  On two articles that both have a \<open>bibcode\<close> attribute that is not \<open>None\<close>,
  \<open>a == b\<close> returns what \<open>==\<close> returns on the two values, and no other attribute is
  read: so it is \<open>True\<close> exactly when both have such a \<open>bibcode\<close> and the two values
  are equal, and \<open>False\<close> when both have one and the values differ.  When either article
  has no \<open>bibcode\<close> attribute, or has \<open>None\<close> there, the comparison raises \<open>TypeError\<close>
  and returns no boolean.
\<close>

theorem Article_eq_iff_bibcode:
  "(Article_eq a b = Inr True \<longleftrightarrow>
      (\<exists>x y. attrs a ''bibcode'' = Some x \<and> attrs b ''bibcode'' = Some y
             \<and> x \<noteq> PyNone \<and> y \<noteq> PyNone \<and> py_eq x y))
   \<and> (attrs a ''bibcode'' = Some x' \<and> attrs b ''bibcode'' = Some y'
        \<and> x' \<noteq> PyNone \<and> y' \<noteq> PyNone
       \<longrightarrow> Article_eq a b = Inr (py_eq x' y'))
   \<and> ((attrs a ''bibcode'' = None \<or> attrs a ''bibcode'' = Some PyNone
        \<or> attrs b ''bibcode'' = None \<or> attrs b ''bibcode'' = Some PyNone)
       \<longrightarrow> Article_eq a b = Inl TypeError)"
proof (intro conjI iffI impI)
  assume "Article_eq a b = Inr True"
  from Article_eq_InrD [OF this]
  show "\<exists>x y. attrs a ''bibcode'' = Some x \<and> attrs b ''bibcode'' = Some y
           \<and> x \<noteq> PyNone \<and> y \<noteq> PyNone \<and> py_eq x y"
    by auto
next
  assume "\<exists>x y. attrs a ''bibcode'' = Some x \<and> attrs b ''bibcode'' = Some y
           \<and> x \<noteq> PyNone \<and> y \<noteq> PyNone \<and> py_eq x y"
  then obtain x y where "attrs a ''bibcode'' = Some x" "attrs b ''bibcode'' = Some y"
    "x \<noteq> PyNone" "y \<noteq> PyNone" "py_eq x y"
    by blast
  then show "Article_eq a b = Inr True"
    by (simp add: Article_eq_usable)
next
  assume "attrs a ''bibcode'' = Some x' \<and> attrs b ''bibcode'' = Some y'
        \<and> x' \<noteq> PyNone \<and> y' \<noteq> PyNone"
  then show "Article_eq a b = Inr (py_eq x' y')"
    by (simp add: Article_eq_usable)
next
  assume "attrs a ''bibcode'' = None \<or> attrs a ''bibcode'' = Some PyNone
        \<or> attrs b ''bibcode'' = None \<or> attrs b ''bibcode'' = Some PyNone"
  then show "Article_eq a b = Inl TypeError"
    by (rule Article_eq_unusable)
qed

theorem Article_eq_iff_bibcode_witness:
  "Article_eq
     (Article_of [(''bibcode'', PyStr ''2013A&A...552A.143S''), (''year'', PyInt 2013)])
     (Article_of [(''bibcode'', PyStr ''2013A&A...552A.143S'')]) = Inr True
   \<and> Article_eq (Article_of [])
        (Article_of [(''bibcode'', PyStr ''2013A&A...552A.143S'')]) = Inl TypeError
   \<and> Article_eq (Article_of [(''bibcode'', PyStr ''Not the same'')])
        (Article_of [(''bibcode'', PyStr ''2013A&A...552A.143S'')]) = Inr False"
  using
    Article_eq_iff_bibcode [where
      a = "Article_of [(''bibcode'', PyStr ''2013A&A...552A.143S''), (''year'', PyInt 2013)]"
      and b = "Article_of [(''bibcode'', PyStr ''2013A&A...552A.143S'')]"
      and x' = "PyStr ''2013A&A...552A.143S''" and y' = "PyStr ''2013A&A...552A.143S''"]
    Article_eq_iff_bibcode [where a = "Article_of []"
      and b = "Article_of [(''bibcode'', PyStr ''2013A&A...552A.143S'')]"
      and x' = PyNone and y' = PyNone]
    Article_eq_iff_bibcode [where a = "Article_of [(''bibcode'', PyStr ''Not the same'')]"
      and b = "Article_of [(''bibcode'', PyStr ''2013A&A...552A.143S'')]"
      and x' = "PyStr ''Not the same''" and y' = "PyStr ''2013A&A...552A.143S''"]
  by (simp add: Article_of_def setattr_def readonly_properties_def)

text \<open>
  C10.  When both articles have a \<open>bibcode\<close> that is not \<open>None\<close>, \<open>a != b\<close> returns the
  negation of what \<open>a == b\<close> returns, that is, whether the two values differ.  When either
  lacks a usable \<open>bibcode\<close>, \<open>a != b\<close> raises the \<open>TypeError\<close> that \<open>a == b\<close> raises.
\<close>

theorem Article_ne_negates_eq:
  "(attrs a ''bibcode'' = Some x \<and> attrs b ''bibcode'' = Some y
      \<and> x \<noteq> PyNone \<and> y \<noteq> PyNone
     \<longrightarrow> Article_eq a b = Inr (py_eq x y) \<and> Article_ne a b = Inr (\<not> py_eq x y))
   \<and> ((attrs a ''bibcode'' = None \<or> attrs a ''bibcode'' = Some PyNone
        \<or> attrs b ''bibcode'' = None \<or> attrs b ''bibcode'' = Some PyNone)
       \<longrightarrow> Article_eq a b = Inl TypeError \<and> Article_ne a b = Inl TypeError)"
proof (intro conjI impI)
  assume u: "attrs a ''bibcode'' = Some x \<and> attrs b ''bibcode'' = Some y
      \<and> x \<noteq> PyNone \<and> y \<noteq> PyNone"
  then show e: "Article_eq a b = Inr (py_eq x y)"
    by (simp add: Article_eq_usable)
  then show "Article_ne a b = Inr (\<not> py_eq x y)"
    by (simp add: Article_ne_def)
next
  assume "attrs a ''bibcode'' = None \<or> attrs a ''bibcode'' = Some PyNone
        \<or> attrs b ''bibcode'' = None \<or> attrs b ''bibcode'' = Some PyNone"
  then show e: "Article_eq a b = Inl TypeError"
    by (rule Article_eq_unusable)
  then show "Article_ne a b = Inl TypeError"
    by (simp add: Article_ne_def)
qed

theorem Article_ne_negates_eq_witness:
  "Article_ne (Article_of [(''bibcode'', PyStr ''Not the same'')])
     (Article_of [(''bibcode'', PyStr ''2013A&A...552A.143S''), (''year'', PyInt 2013)])
     = Inr True
   \<and> Article_ne (Article_of [(''bibcode'', PyStr ''A'')])
        (Article_of [(''bibcode'', PyStr ''A''), (''year'', PyInt 2013)]) = Inr False
   \<and> Article_ne (Article_of [(''bibcode'', PyNone)])
        (Article_of [(''bibcode'', PyStr ''A'')]) = Inl TypeError"
  using
    Article_ne_negates_eq [of
      "Article_of [(''bibcode'', PyStr ''Not the same'')]" "PyStr ''Not the same''"
      "Article_of [(''bibcode'', PyStr ''2013A&A...552A.143S''), (''year'', PyInt 2013)]"
      "PyStr ''2013A&A...552A.143S''"]
    Article_ne_negates_eq [of
      "Article_of [(''bibcode'', PyStr ''A'')]" "PyStr ''A''"
      "Article_of [(''bibcode'', PyStr ''A''), (''year'', PyInt 2013)]" "PyStr ''A''"]
    Article_ne_negates_eq [of
      "Article_of [(''bibcode'', PyNone)]" PyNone
      "Article_of [(''bibcode'', PyStr ''A'')]" PyNone]
  by (simp add: Article_of_def setattr_def readonly_properties_def)

section \<open>Wrapping documents and parsing envelopes\<close>

lemma setattr_native:
  "setattr u k v d = Inr d1 \<Longrightarrow> setattr False k v d = Inr d1"
  by (auto simp: setattr_def split: if_splits)

lemma set_attributes_native:
  "set_attributes u kwargs d = Inr d1 \<Longrightarrow> set_attributes False kwargs d = Inr d1"
proof (induction kwargs arbitrary: d)
  case Nil
  then show ?case by simp
next
  case (Cons kv rest)
  from Cons.prems obtain d2 where s: "setattr u (fst kv) (snd kv) d = Inr d2"
    and r: "set_attributes u rest d2 = Inr d1"
    by (cases "setattr u (fst kv) (snd kv) d") simp_all
  from setattr_native [OF s] Cons.IH [OF r] show ?case by simp
qed

lemma Article_init_Inr:
  assumes "Article_init u kwargs w = (Inr a, w1)"
  shows "a = Article_of kwargs"
proof (cases "set_attributes u kwargs [''_raw'' \<mapsto> PyDict kwargs]")
  case (Inl e)
  with assms show ?thesis by (simp add: Article_init_def split: if_splits)
next
  case (Inr d)
  with assms have a: "a = \<lparr>attrs = d\<rparr>" by (simp add: Article_init_def split: if_splits)
  from set_attributes_native [OF Inr] a show ?thesis by (simp add: Article_of_def)
qed

lemma setattr_settable:
  "ascii_name k \<Longrightarrow> k \<notin> set reserved_names \<Longrightarrow> setattr u k v d = Inr (d(k \<mapsto> v))"
  by (simp add: setattr_def reserved_names_def)

lemma set_attributes_settable:
  "settable kwargs \<Longrightarrow> \<exists>d1. set_attributes u kwargs d = Inr d1"
proof (induction kwargs arbitrary: d)
  case Nil
  then show ?case by simp
next
  case (Cons kv rest)
  then have k: "ascii_name (fst kv)" "fst kv \<notin> set reserved_names" and r: "settable rest"
    by (simp_all add: settable_def)
  from setattr_settable [OF k] Cons.IH [OF r] show ?case by simp
qed

lemma set_attributes_fold:
  "settable kwargs \<Longrightarrow>
   set_attributes u kwargs d = Inr (fold (\<lambda>kv m. m(fst kv \<mapsto> snd kv)) kwargs d)"
proof (induction kwargs arbitrary: d)
  case Nil
  then show ?case by simp
next
  case (Cons kv rest)
  then have k: "ascii_name (fst kv)" "fst kv \<notin> set reserved_names" and r: "settable rest"
    by (simp_all add: settable_def)
  from setattr_settable [OF k] Cons.IH [OF r] show ?case by simp
qed

lemma fold_upd_distinct:
  "distinct (map fst kvs) \<Longrightarrow> fold (\<lambda>kv m. m(fst kv \<mapsto> snd kv)) kvs d = d ++ map_of kvs"
proof (induction kvs arbitrary: d)
  case Nil
  then show ?case by simp
next
  case (Cons kv kvs)
  then have n: "fst kv \<notin> dom (map_of kvs)" and ds: "distinct (map fst kvs)"
    by (simp_all add: dom_map_of_conv_image_fst)
  have "fold (\<lambda>kv m. m(fst kv \<mapsto> snd kv)) (kv # kvs) d = d(fst kv \<mapsto> snd kv) ++ map_of kvs"
    by (simp only: fold_simps Cons.IH [OF ds])
  also have "\<dots> = (d ++ map_of kvs)(fst kv \<mapsto> snd kv)"
    using n by (rule map_add_upd_left)
  also have "\<dots> = d ++ map_of (kv # kvs)"
    by (cases kv) simp
  finally show ?case .
qed

text \<open>The record made of a document whose field names are distinct ASCII names, none of
  them reserved or \<open>_raw\<close>: its instance dictionary is the document, and the document
  again under \<open>_raw\<close>.\<close>

lemma Article_of_settable:
  assumes "settable kwargs" and "distinct (map fst kwargs)" and "map_of kwargs ''_raw'' = None"
  shows "attrs (Article_of kwargs) = (map_of kwargs)(''_raw'' \<mapsto> PyDict kwargs)"
proof -
  have "attrs (Article_of kwargs) = [''_raw'' \<mapsto> PyDict kwargs] ++ map_of kwargs"
    using set_attributes_fold [OF assms(1), of False "[''_raw'' \<mapsto> PyDict kwargs]"]
      fold_upd_distinct [OF assms(2), of "[''_raw'' \<mapsto> PyDict kwargs]"]
    by (simp add: Article_of_def)
  also have "\<dots> = (map_of kwargs)(''_raw'' \<mapsto> PyDict kwargs)"
    using assms(3) by (auto simp: map_add_def split: option.splits)
  finally show ?thesis .
qed

lemma settable_no_self: "settable kwargs \<Longrightarrow> map_of kwargs ''self'' = None"
proof (induction kwargs)
  case Nil
  then show ?case by simp
next
  case (Cons kv rest)
  then have "fst kv \<noteq> ''self''" and "settable rest"
    by (auto simp: settable_def reserved_names_def)
  with Cons.IH show ?case by (cases kv) simp
qed

lemma Article_init_settable:
  assumes "settable kwargs"
  shows "Article_init u kwargs w = (Inr (Article_of kwargs), id_warning kwargs w)"
proof -
  from set_attributes_settable [OF assms]
  obtain d1 where d: "set_attributes u kwargs [''_raw'' \<mapsto> PyDict kwargs] = Inr d1" by blast
  from set_attributes_native [OF d] d settable_no_self [OF assms]
  show ?thesis by (simp add: Article_init_def Article_of_def)
qed

lemma setattr_not_StopIteration: "setattr u k v d \<noteq> Inl (StopIteration m)"
  by (auto simp: setattr_def split: pyval.splits)

lemma set_attributes_not_StopIteration: "set_attributes u kwargs d \<noteq> Inl (StopIteration m)"
proof (induction kwargs arbitrary: d)
  case Nil
  then show ?case by simp
next
  case (Cons kv rest)
  with setattr_not_StopIteration [of u "fst kv" "snd kv" d m] show ?case
    by (cases "setattr u (fst kv) (snd kv) d") simp_all
qed

lemma Article_init_not_StopIteration:
  "fst (Article_init u kwargs w) \<noteq> Inl (StopIteration m)"
  using set_attributes_not_StopIteration [of u kwargs "[''_raw'' \<mapsto> PyDict kwargs]" m]
  by (cases "set_attributes u kwargs [''_raw'' \<mapsto> PyDict kwargs]")
     (simp_all add: Article_init_def)

lemma id_warning_requests: "requests (id_warning kwargs w) = requests w"
  by (simp add: id_warning_def warn_def)

lemma Article_init_requests:
  "requests (snd (Article_init u kwargs w)) = requests w"
  by (cases "set_attributes u kwargs [''_raw'' \<mapsto> PyDict kwargs]")
     (simp_all add: Article_init_def id_warning_requests)

lemma append_articles_None:
  "append_articles py3 (map PyDict ks) acc w = (None, acc', w')
   \<Longrightarrow> acc' = acc @ map Article_of ks"
proof (induction ks arbitrary: acc w)
  case Nil
  then show ?case by simp
next
  case (Cons k ks)
  obtain o1 w1 where i: "Article_init (\<not> py3) k w = (o1, w1)"
    by (cases "Article_init (\<not> py3) k w")
  show ?case
  proof (cases o1)
    case (Inl e)
    with Cons.prems i show ?thesis by simp
  next
    case (Inr a)
    with i have a: "a = Article_of k" by (simp add: Article_init_Inr)
    from Cons.prems i Inr
    have "append_articles py3 (map PyDict ks) (acc @ [a]) w1 = (None, acc', w')"
      by simp
    from Cons.IH [OF this] a show ?thesis by simp
  qed
qed

lemma append_articles_settable:
  "list_all settable ks \<Longrightarrow>
   append_articles py3 (map PyDict ks) acc w
     = (None, acc @ map Article_of ks, wrap_warnings ks w)"
proof (induction ks arbitrary: acc w)
  case Nil
  then show ?case by (simp add: wrap_warnings_def)
next
  case (Cons k ks)
  then have k: "settable k" and ks: "list_all settable ks" by simp_all
  have "append_articles py3 (map PyDict (k # ks)) acc w
        = append_articles py3 (map PyDict ks) (acc @ [Article_of k]) (id_warning k w)"
    by (simp add: Article_init_settable [OF k])
  also have "\<dots> = (None, (acc @ [Article_of k]) @ map Article_of ks,
                    wrap_warnings ks (id_warning k w))"
    by (rule Cons.IH [OF ks])
  finally show ?case by (simp add: wrap_warnings_def)
qed

lemma append_articles_not_StopIteration:
  "fst (append_articles py3 dl acc w) \<noteq> Some (StopIteration m)"
proof (induction py3 dl acc w rule: append_articles.induct)
  case (2 py3 kwargs rest acc w)
  obtain o1 w1 where i: "Article_init (\<not> py3) kwargs w = (o1, w1)"
    by (cases "Article_init (\<not> py3) kwargs w")
  show ?case
  proof (cases o1)
    case (Inl e)
    with i Article_init_not_StopIteration [of "\<not> py3" kwargs w m] show ?thesis by simp
  next
    case (Inr a)
    with i 2 show ?thesis by simp
  qed
qed simp_all

lemma append_articles_requests:
  "requests (snd (snd (append_articles py3 dl acc w))) = requests w"
proof (induction py3 dl acc w rule: append_articles.induct)
  case (2 py3 kwargs rest acc w)
  obtain o1 w1 where i: "Article_init (\<not> py3) kwargs w = (o1, w1)"
    by (cases "Article_init (\<not> py3) kwargs w")
  with Article_init_requests [of "\<not> py3" kwargs w] have r: "requests w1 = requests w" by simp
  show ?case
  proof (cases o1)
    case (Inl e)
    with i r show ?thesis by simp
  next
    case (Inr a)
    with i r 2 show ?thesis by simp
  qed
qed simp_all

lemma getitem_errors: "getitem v k = Inl e \<Longrightarrow> e = TypeError \<or> e = KeyError k"
  by (cases v) (auto split: option.splits)

lemma envelope_fields_errors:
  "envelope_fields j = Inl e \<Longrightarrow> e = TypeError \<or> (\<exists>k. e = KeyError k)"
  unfolding envelope_fields_def bind_err_def
  by (auto split: sum.splits dest: getitem_errors)

lemma SolrResponse_init_not_StopIteration:
  "SolrResponse_init P body \<noteq> Inl (StopIteration m)"
proof
  assume a: "SolrResponse_init P body = Inl (StopIteration m)"
  show False
  proof (cases "json_loads P body")
    case None
    with a show False by (simp add: SolrResponse_init_def)
  next
    case (Some j)
    show False
    proof (cases "envelope_fields j")
      case (Inl e)
      from envelope_fields_errors [OF Inl] a Some Inl show False
        by (auto simp: SolrResponse_init_def)
    next
      case (Inr t)
      with a Some show False
        by (auto simp: SolrResponse_init_def split: prod.splits)
    qed
  qed
qed

lemma SolrResponse_init_fresh:
  "SolrResponse_init P body = Inr sr \<Longrightarrow> sr_articles sr = None"
  by (auto simp: SolrResponse_init_def split: option.splits sum.splits error.splits prod.splits)

lemma SolrResponse_articles_memo:
  "sr_articles sr = Some as \<Longrightarrow> SolrResponse_articles P sr w = (Inr as, sr, w)"
  by (simp add: SolrResponse_articles_def)

lemma SolrResponse_articles_first:
  assumes "sr_articles sr = None" and "docs sr = PyList (map PyDict ks)"
    and "list_all settable ks"
  shows "SolrResponse_articles P sr w =
           (Inr (map Article_of ks), sr\<lparr>sr_articles := Some (map Article_of ks)\<rparr>,
            wrap_warnings ks w)"
  using assms by (simp add: SolrResponse_articles_def append_articles_settable)

lemma SolrResponse_init_present:
  assumes "json_loads P body = Some (PyDict obj)"
    and "map_of obj ''responseHeader'' = Some (PyDict h)" and "map_of h ''params'' = Some ps"
    and "map_of obj ''response'' = Some (PyDict r)" and "map_of r ''numFound'' = Some n"
    and "map_of r ''docs'' = Some d"
  shows "SolrResponse_init P body =
           Inr \<lparr>response = JsonResponse (PyDict r), sr_raw = body, json = PyDict obj,
                sr_articles = None, responseHeader = PyDict h, params = ps, numFound = n,
                docs = d\<rparr>"
  using assms by (simp add: SolrResponse_init_def envelope_fields_def bind_err_def)

text \<open>
  C6 (as amended).  Let the body decode to a JSON object.  If \<open>responseHeader\<close> is missing
  from it, or \<open>params\<close> from the \<open>responseHeader\<close> object, or \<open>response\<close> from the body,
  or \<open>numFound\<close> or \<open>docs\<close> from the \<open>response\<close> object, then \<open>SolrResponse(body)\<close>
  raises \<open>SolrResponseParseError\<close> carrying the first missing key, in that order, and no
  envelope is built.  If all five are present and \<open>docs\<close> is a list of objects whose field
  names are ASCII and are none of \<open>self\<close>, \<open>__class__\<close>, \<open>__dict__\<close>, \<open>__weakref__\<close>,
  \<open>bibtex\<close>, \<open>references\<close>, \<open>citations\<close> and \<open>metrics\<close>, the envelope is built and its
  \<open>articles\<close> view holds exactly one wrapped record per entry of \<open>docs\<close>, whatever
  \<open>numFound\<close> says; the list is stored on the first access and returned as it is on
  every later one, with nothing wrapped again.
\<close>

theorem SolrResponse_envelope:
  assumes "json_loads P body = Some (PyDict obj)"
  shows
  "(map_of obj ''responseHeader'' = None \<longrightarrow>
      SolrResponse_init P body = Inl (SolrResponseParseError (key_repr ''responseHeader'')))
   \<and> (map_of obj ''responseHeader'' = Some (PyDict h) \<longrightarrow>
        (map_of h ''params'' = None \<longrightarrow>
           SolrResponse_init P body = Inl (SolrResponseParseError (key_repr ''params'')))
      \<and> (map_of h ''params'' = Some ps \<longrightarrow>
           (map_of obj ''response'' = None \<longrightarrow>
              SolrResponse_init P body = Inl (SolrResponseParseError (key_repr ''response'')))
         \<and> (map_of obj ''response'' = Some (PyDict r) \<longrightarrow>
              (map_of r ''numFound'' = None \<longrightarrow>
                 SolrResponse_init P body = Inl (SolrResponseParseError (key_repr ''numFound'')))
            \<and> (map_of r ''numFound'' = Some n \<longrightarrow>
                 (map_of r ''docs'' = None \<longrightarrow>
                    SolrResponse_init P body = Inl (SolrResponseParseError (key_repr ''docs'')))
               \<and> (map_of r ''docs'' = Some (PyList (map PyDict ks)) \<and> list_all settable ks \<longrightarrow>
                    (\<exists>sr. SolrResponse_init P body = Inr sr \<and> numFound sr = n
                       \<and> SolrResponse_articles P sr w =
                           (Inr (map Article_of ks), sr\<lparr>sr_articles := Some (map Article_of ks)\<rparr>,
                            wrap_warnings ks w)
                       \<and> length (map Article_of ks) = length ks
                       \<and> (\<forall>w'. SolrResponse_articles
                                  P (sr\<lparr>sr_articles := Some (map Article_of ks)\<rparr>) w' =
                                (Inr (map Article_of ks),
                                 sr\<lparr>sr_articles := Some (map Article_of ks)\<rparr>, w'))))))))"
proof -
  have missing: "\<And>j k. envelope_fields j = Inl (KeyError k) \<Longrightarrow> json_loads P body = Some j \<Longrightarrow>
      SolrResponse_init P body = Inl (SolrResponseParseError (key_repr k))"
    by (simp add: SolrResponse_init_def)
  have c1: "map_of obj ''responseHeader'' = None \<Longrightarrow>
      envelope_fields (PyDict obj) = Inl (KeyError ''responseHeader'')"
    by (simp add: envelope_fields_def bind_err_def)
  have c2: "map_of obj ''responseHeader'' = Some (PyDict h) \<Longrightarrow> map_of h ''params'' = None \<Longrightarrow>
      envelope_fields (PyDict obj) = Inl (KeyError ''params'')"
    by (simp add: envelope_fields_def bind_err_def)
  have c3: "map_of obj ''responseHeader'' = Some (PyDict h) \<Longrightarrow> map_of h ''params'' = Some ps \<Longrightarrow>
      map_of obj ''response'' = None \<Longrightarrow>
      envelope_fields (PyDict obj) = Inl (KeyError ''response'')"
    by (simp add: envelope_fields_def bind_err_def)
  have c4: "map_of obj ''responseHeader'' = Some (PyDict h) \<Longrightarrow> map_of h ''params'' = Some ps \<Longrightarrow>
      map_of obj ''response'' = Some (PyDict r) \<Longrightarrow> map_of r ''numFound'' = None \<Longrightarrow>
      envelope_fields (PyDict obj) = Inl (KeyError ''numFound'')"
    by (simp add: envelope_fields_def bind_err_def)
  have c5: "map_of obj ''responseHeader'' = Some (PyDict h) \<Longrightarrow> map_of h ''params'' = Some ps \<Longrightarrow>
      map_of obj ''response'' = Some (PyDict r) \<Longrightarrow> map_of r ''numFound'' = Some n \<Longrightarrow>
      map_of r ''docs'' = None \<Longrightarrow>
      envelope_fields (PyDict obj) = Inl (KeyError ''docs'')"
    by (simp add: envelope_fields_def bind_err_def)
  have c6: "map_of obj ''responseHeader'' = Some (PyDict h) \<Longrightarrow> map_of h ''params'' = Some ps \<Longrightarrow>
      map_of obj ''response'' = Some (PyDict r) \<Longrightarrow> map_of r ''numFound'' = Some n \<Longrightarrow>
      map_of r ''docs'' = Some (PyList (map PyDict ks)) \<Longrightarrow> list_all settable ks \<Longrightarrow>
      (\<exists>sr. SolrResponse_init P body = Inr sr \<and> numFound sr = n
         \<and> SolrResponse_articles P sr w =
             (Inr (map Article_of ks), sr\<lparr>sr_articles := Some (map Article_of ks)\<rparr>,
              wrap_warnings ks w)
         \<and> length (map Article_of ks) = length ks
         \<and> (\<forall>w'. SolrResponse_articles P (sr\<lparr>sr_articles := Some (map Article_of ks)\<rparr>) w' =
                  (Inr (map Article_of ks), sr\<lparr>sr_articles := Some (map Article_of ks)\<rparr>, w')))"
  proof -
    assume a: "map_of obj ''responseHeader'' = Some (PyDict h)" "map_of h ''params'' = Some ps"
      "map_of obj ''response'' = Some (PyDict r)" "map_of r ''numFound'' = Some n"
      "map_of r ''docs'' = Some (PyList (map PyDict ks))" and st: "list_all settable ks"
    let ?sr = "\<lparr>response = JsonResponse (PyDict r), sr_raw = body, json = PyDict obj,
                sr_articles = None, responseHeader = PyDict h, params = ps, numFound = n,
                docs = PyList (map PyDict ks)\<rparr>"
    have i: "SolrResponse_init P body = Inr ?sr"
      by (rule SolrResponse_init_present [OF assms a])
    have f: "SolrResponse_articles P ?sr w =
             (Inr (map Article_of ks), ?sr\<lparr>sr_articles := Some (map Article_of ks)\<rparr>,
              wrap_warnings ks w)"
      by (rule SolrResponse_articles_first) (simp_all add: st)
    have m: "\<forall>w'. SolrResponse_articles P (?sr\<lparr>sr_articles := Some (map Article_of ks)\<rparr>) w' =
             (Inr (map Article_of ks), ?sr\<lparr>sr_articles := Some (map Article_of ks)\<rparr>, w')"
      by (simp add: SolrResponse_articles_memo)
    from i f m show ?thesis by (intro exI [of _ ?sr]) simp
  qed
  from missing [OF c1 assms] missing [OF c2 assms] missing [OF c3 assms] missing [OF c4 assms]
    missing [OF c5 assms] c6
  show ?thesis by blast
qed

theorem SolrResponse_envelope_witness:
  "SolrResponse_init
     (platform_decoding
        (PyDict [(''this_is_now_malformed_data'', PyDict [(''params'', PyDict [])]),
                 (''response'', PyDict [(''numFound'', PyInt 1), (''docs'', PyList [])])]))
     ''{}'' = Inl (SolrResponseParseError (key_repr ''responseHeader''))
   \<and> SolrResponse_init
       (platform_decoding
          (PyDict [(''responseHeader'', PyDict [(''params'', PyDict [])]),
                   (''response'', PyDict [(''numFound'', PyInt 1)])]))
       ''{}'' = Inl (SolrResponseParseError (key_repr ''docs''))
   \<and> (\<exists>sr. SolrResponse_init (example_platform True (example_docs 1)) ''r'' = Inr sr
          \<and> numFound sr = PyInt 1
          \<and> fst (SolrResponse_articles (example_platform True (example_docs 1)) sr empty_world)
              = Inr [Article_of [(''id'', PyInt 0)]]
          \<and> SolrResponse_articles (example_platform True (example_docs 1))
               (sr\<lparr>sr_articles := Some [Article_of [(''id'', PyInt 0)]]\<rparr>) empty_world
             = (Inr [Article_of [(''id'', PyInt 0)]],
                sr\<lparr>sr_articles := Some [Article_of [(''id'', PyInt 0)]]\<rparr>, empty_world))"
proof (intro conjI)
  show "SolrResponse_init
     (platform_decoding
        (PyDict [(''this_is_now_malformed_data'', PyDict [(''params'', PyDict [])]),
                 (''response'', PyDict [(''numFound'', PyInt 1), (''docs'', PyList [])])]))
     ''{}'' = Inl (SolrResponseParseError (key_repr ''responseHeader''))"
    using SolrResponse_envelope [of
        "platform_decoding
          (PyDict [(''this_is_now_malformed_data'', PyDict [(''params'', PyDict [])]),
                   (''response'', PyDict [(''numFound'', PyInt 1), (''docs'', PyList [])])])"
        "''{}''"
        "[(''this_is_now_malformed_data'', PyDict [(''params'', PyDict [])]),
          (''response'', PyDict [(''numFound'', PyInt 1), (''docs'', PyList [])])]"]
    by (simp add: platform_decoding_def)
next
  show "SolrResponse_init
       (platform_decoding
          (PyDict [(''responseHeader'', PyDict [(''params'', PyDict [])]),
                   (''response'', PyDict [(''numFound'', PyInt 1)])]))
       ''{}'' = Inl (SolrResponseParseError (key_repr ''docs''))"
    using SolrResponse_envelope [of
        "platform_decoding
          (PyDict [(''responseHeader'', PyDict [(''params'', PyDict [])]),
                   (''response'', PyDict [(''numFound'', PyInt 1)])])"
        "''{}''"
        "[(''responseHeader'', PyDict [(''params'', PyDict [])]),
          (''response'', PyDict [(''numFound'', PyInt 1)])]"
        "[(''params'', PyDict [])]" "PyDict []" "[(''numFound'', PyInt 1)]" "PyInt 1"]
    by (simp add: platform_decoding_def)
next
  have l: "json_loads (example_platform True (example_docs 1)) ''r'' =
      Some (PyDict [(''responseHeader'', PyDict [(''status'', PyInt 0), (''params'', PyDict [])]),
                    (''response'', PyDict [(''numFound'', PyInt 1), (''start'', PyInt 0),
                                            (''docs'', PyList (map PyDict [[(''id'', PyInt 0)]]))])])"
    by (simp add: example_platform_def example_loads_def example_envelope_def)
  have s: "list_all settable [[(''id'', PyInt 0)]]"
    by (simp add: settable_def reserved_names_def readonly_properties_def ascii_name_def)
  from SolrResponse_envelope [OF l, of
      "[(''status'', PyInt 0), (''params'', PyDict [])]" "PyDict []"
      "[(''numFound'', PyInt 1), (''start'', PyInt 0),
        (''docs'', PyList (map PyDict [[(''id'', PyInt 0)]]))]"
      "PyInt 1" "[[(''id'', PyInt 0)]]" empty_world] s
  show "\<exists>sr. SolrResponse_init (example_platform True (example_docs 1)) ''r'' = Inr sr
          \<and> numFound sr = PyInt 1
          \<and> fst (SolrResponse_articles (example_platform True (example_docs 1)) sr empty_world)
              = Inr [Article_of [(''id'', PyInt 0)]]
          \<and> SolrResponse_articles (example_platform True (example_docs 1))
               (sr\<lparr>sr_articles := Some [Article_of [(''id'', PyInt 0)]]\<rparr>) empty_world
             = (Inr [Article_of [(''id'', PyInt 0)]],
                sr\<lparr>sr_articles := Some [Article_of [(''id'', PyInt 0)]]\<rparr>, empty_world)"
    by auto
qed

theorem SolrResponse_envelope_counterexample:
  "numFound (projr (SolrResponse_init (example_platform True (example_docs 1)) ''sr'')) = PyInt 1
   \<and> fst (SolrResponse_articles
            (example_platform True (example_docs 1)) (projr (SolrResponse_init (example_platform True (example_docs 1)) ''sr''))
            empty_world) = Inr []
   \<and> SolrResponse_init
        (platform_decoding
           (PyDict [(''responseHeader'', PyList []),
                    (''response'', PyDict [(''numFound'', PyInt 1), (''docs'', PyList [])])]))
        ''{}'' = Inl TypeError"
  by (simp add: SolrResponse_init_def example_platform_def example_loads_def
      example_envelope_def envelope_fields_def bind_err_def SolrResponse_articles_def
      platform_decoding_def)

text \<open>
  C9.  \<open>load_http_response\<close> on a response whose \<open>ok\<close> flag is false raises
  \<open>APIResponseError\<close> with the response text, whatever the class, and builds nothing.
  On a response whose flag is true it calls the constructor of the class on the text:
  what the constructor raises is raised, and what it builds is returned with its
  \<open>response\<close> attribute set to the HTTP response.
\<close>

theorem load_http_response_cases:
  "(\<not> resp_ok r \<longrightarrow> load_http_response cls r = Inl (APIResponseError (resp_text r)))
   \<and> (resp_ok r \<longrightarrow>
        (\<forall>e. cls (resp_text r) = Inl e \<longrightarrow> load_http_response cls r = Inl e)
      \<and> (\<forall>c. cls (resp_text r) = Inr c \<longrightarrow>
             load_http_response cls r = Inr (c\<lparr>response := HttpResponse r\<rparr>)))"
proof (intro conjI impI allI)
  assume "\<not> resp_ok r"
  then show "load_http_response cls r = Inl (APIResponseError (resp_text r))"
    by (simp add: load_http_response_def)
next
  fix e assume "resp_ok r" and "cls (resp_text r) = Inl e"
  then show "load_http_response cls r = Inl e"
    by (simp add: load_http_response_def)
next
  fix c assume "resp_ok r" and "cls (resp_text r) = Inr c"
  then show "load_http_response cls r = Inr (c\<lparr>response := HttpResponse r\<rparr>)"
    by (simp add: load_http_response_def)
qed

theorem load_http_response_cases_witness:
  "load_http_response (SolrResponse_init (example_platform True (example_docs 1)))
     \<lparr>resp_ok = False, resp_text = ''Unauthorized'', resp_headers = []\<rparr>
     = Inl (APIResponseError ''Unauthorized'')
   \<and> load_http_response (SolrResponse_init (example_platform True (example_docs 1)))
       \<lparr>resp_ok = True, resp_text = ''r'', resp_headers = [(''X-RateLimit-Limit'', ''5000'')]\<rparr>
     = Inr \<lparr>response = HttpResponse \<lparr>resp_ok = True, resp_text = ''r'',
                         resp_headers = [(''X-RateLimit-Limit'', ''5000'')]\<rparr>,
            sr_raw = ''r'', json = example_envelope (example_docs 1) 0 1, sr_articles = None,
            responseHeader = PyDict [(''status'', PyInt 0), (''params'', PyDict [])],
            params = PyDict [], numFound = PyInt 1,
            docs = PyList [PyDict [(''id'', PyInt 0)]]\<rparr>
   \<and> load_http_response (SolrResponse_init (example_platform True (example_docs 1)))
       \<lparr>resp_ok = True, resp_text = ''not json'', resp_headers = []\<rparr> = Inl ValueError"
proof -
  have i: "SolrResponse_init (example_platform True (example_docs 1)) ''r''
       = Inr \<lparr>response = JsonResponse (PyDict [(''numFound'', PyInt 1), (''start'', PyInt 0),
                                            (''docs'', PyList [PyDict [(''id'', PyInt 0)]])]),
            sr_raw = ''r'', json = example_envelope (example_docs 1) 0 1, sr_articles = None,
            responseHeader = PyDict [(''status'', PyInt 0), (''params'', PyDict [])],
            params = PyDict [], numFound = PyInt 1,
            docs = PyList [PyDict [(''id'', PyInt 0)]]\<rparr>"
    by (simp add: SolrResponse_init_def example_platform_def example_loads_def
        example_envelope_def envelope_fields_def bind_err_def)
  have v: "SolrResponse_init (example_platform True (example_docs 1)) ''not json'' = Inl ValueError"
    by (simp add: SolrResponse_init_def example_platform_def example_loads_def)
  from i v
    load_http_response_cases [of
      "\<lparr>resp_ok = False, resp_text = ''Unauthorized'', resp_headers = []\<rparr>"
      "SolrResponse_init (example_platform True (example_docs 1))"]
    load_http_response_cases [of
      "\<lparr>resp_ok = True, resp_text = ''r'', resp_headers = [(''X-RateLimit-Limit'', ''5000'')]\<rparr>"
      "SolrResponse_init (example_platform True (example_docs 1))"]
    load_http_response_cases [of
      "\<lparr>resp_ok = True, resp_text = ''not json'', resp_headers = []\<rparr>"
      "SolrResponse_init (example_platform True (example_docs 1))"]
  show ?thesis by simp
qed

lemma example_loads_page:
  "example_loads ds (replicate st CHR ''s'' @ replicate r CHR ''r'') = Some (example_envelope ds st r)"
  by (auto simp: example_loads_def)

lemma example_init_page:
  "\<exists>sr. SolrResponse_init (example_platform py3 ds) (replicate st CHR ''s'' @ replicate r CHR ''r'') = Inr sr
     \<and> numFound sr = PyInt (int (length ds)) \<and> docs sr = PyList (map PyDict (take r (drop st ds)))"
  by (simp add: SolrResponse_init_def example_platform_def example_loads_page
      envelope_fields_def example_envelope_def bind_err_def)

lemma example_serves: "serves (example_platform py3 ds) ds"
  unfolding serves_def
proof (intro allI impI)
  fix log :: "query_params list" and req :: query_params and st r :: int
  assume a: "qp_start req = Some st \<and> qp_rows req = Some r \<and> 0 \<le> st \<and> 0 < r"
  then have t: "respond (example_platform py3 ds) log req =
      \<lparr>resp_ok = True, resp_text = replicate (nat st) CHR ''s'' @ replicate (nat r) CHR ''r'',
       resp_headers = []\<rparr>"
    by (simp add: example_platform_def example_respond_def)
  from example_init_page [of py3 ds "nat st" "nat r"] t
  show "resp_ok (respond (example_platform py3 ds) log req) \<and>
        (\<exists>sr. SolrResponse_init (example_platform py3 ds)
                 (resp_text (respond (example_platform py3 ds) log req)) = Inr sr
              \<and> numFound sr = PyInt (int (length ds))
              \<and> docs sr = PyList (map PyDict (take (nat r) (drop (nat st) ds))))"
    by simp
qed

section \<open>Construction\<close>

lemma SearchQuery_init_Inr:
  assumes "qp_rows (build_query args) = Some r" and "0 < r"
    and "qp_q (build_query args) = Some t" and "t \<noteq> []"
  shows "SearchQuery_init py3 args =
           Inr \<lparr>bq_token = None, sq_articles = [], sq_response = None,
                max_pages = arg_max_pages args, iter_counter = 0, sq_query = build_query args\<rparr>"
  using assms by (simp add: SearchQuery_init_def Let_def)

lemma SearchQuery_init_rows_Inl:
  assumes "\<not> (\<exists>r. qp_rows (build_query args) = Some r \<and> 0 < r)"
  shows "\<exists>e. SearchQuery_init py3 args = Inl e"
  using assms by (cases "qp_rows (build_query args)") (auto simp: SearchQuery_init_def Let_def)

lemma SearchQuery_init_q_Inl:
  assumes "\<not> (\<exists>t. qp_q (build_query args) = Some t \<and> t \<noteq> [])"
  shows "\<exists>e. SearchQuery_init py3 args = Inl e"
  using assms
  by (cases "qp_rows (build_query args)"; cases "qp_q (build_query args)")
     (auto simp: SearchQuery_init_def Let_def)

text \<open>
  C8.  Constructing a \<open>SearchQuery\<close> fails exactly when the \<open>rows\<close> entry of the query
  it builds is absent or not greater than 0, or its \<open>q\<close> entry is absent or empty.
  Otherwise the construction succeeds, and the query of the new object has \<open>rows > 0\<close>
  and a non-empty \<open>q\<close>.
\<close>

theorem SearchQuery_init_checks:
  "((\<exists>e. SearchQuery_init py3 args = Inl e) \<longleftrightarrow>
      \<not> (\<exists>r. qp_rows (build_query args) = Some r \<and> 0 < r)
      \<or> \<not> (\<exists>t. qp_q (build_query args) = Some t \<and> t \<noteq> []))
   \<and> (\<forall>s. SearchQuery_init py3 args = Inr s \<longrightarrow>
         sq_query s = build_query args
         \<and> (\<exists>r. qp_rows (sq_query s) = Some r \<and> 0 < r)
         \<and> (\<exists>t. qp_q (sq_query s) = Some t \<and> t \<noteq> []))"
proof (intro conjI iffI allI impI)
  assume "\<exists>e. SearchQuery_init py3 args = Inl e"
  then obtain e where e: "SearchQuery_init py3 args = Inl e" ..
  show "\<not> (\<exists>r. qp_rows (build_query args) = Some r \<and> 0 < r)
      \<or> \<not> (\<exists>t. qp_q (build_query args) = Some t \<and> t \<noteq> [])"
  proof (rule ccontr)
    assume "\<not> ?thesis"
    then obtain r t where "qp_rows (build_query args) = Some r" "0 < r"
      "qp_q (build_query args) = Some t" "t \<noteq> []"
      by blast
    from SearchQuery_init_Inr [OF this, of py3] e show False by simp
  qed
next
  assume "\<not> (\<exists>r. qp_rows (build_query args) = Some r \<and> 0 < r)
      \<or> \<not> (\<exists>t. qp_q (build_query args) = Some t \<and> t \<noteq> [])"
  then show "\<exists>e. SearchQuery_init py3 args = Inl e"
    using SearchQuery_init_rows_Inl SearchQuery_init_q_Inl by blast
next
  fix s assume s: "SearchQuery_init py3 args = Inr s"
  have ok: "(\<exists>r. qp_rows (build_query args) = Some r \<and> 0 < r)
      \<and> (\<exists>t. qp_q (build_query args) = Some t \<and> t \<noteq> [])"
    using s SearchQuery_init_rows_Inl [of args py3] SearchQuery_init_q_Inl [of args py3] by auto
  then obtain r t where rt: "qp_rows (build_query args) = Some r" "0 < r"
      "qp_q (build_query args) = Some t" "t \<noteq> []"
    by blast
  from SearchQuery_init_Inr [OF rt, of py3] s
  show q: "sq_query s = build_query args" by auto
  from q rt show "\<exists>r. qp_rows (sq_query s) = Some r \<and> 0 < r" by simp
  from q rt show "\<exists>t. qp_q (sq_query s) = Some t \<and> t \<noteq> []" by simp
qed

theorem SearchQuery_init_checks_witness:
  "(\<exists>s. SearchQuery_init True
          (default_args\<lparr>arg_q := Some ''unittest'', arg_rows := Some 1, arg_max_pages := 20\<rparr>)
        = Inr s \<and> qp_rows (sq_query s) = Some 1 \<and> qp_q (sq_query s) = Some ''unittest'')
   \<and> (\<exists>e. SearchQuery_init True (default_args\<lparr>arg_q := Some ''unittest'', arg_rows := Some 0\<rparr>)
          = Inl e)
   \<and> (\<exists>e. SearchQuery_init True default_args = Inl e)
   \<and> (\<exists>s. SearchQuery_init True (default_args\<lparr>arg_kwargs := [(''author'', ''Sudilovsky'')]\<rparr>)
          = Inr s)"
proof -
  let ?a1 = "default_args\<lparr>arg_q := Some ''unittest'', arg_rows := Some 1, arg_max_pages := 20\<rparr>"
  let ?a2 = "default_args\<lparr>arg_q := Some ''unittest'', arg_rows := Some 0\<rparr>"
  let ?a4 = "default_args\<lparr>arg_kwargs := [(''author'', ''Sudilovsky'')]\<rparr>"
  have b1: "qp_rows (build_query ?a1) = Some 1" "qp_q (build_query ?a1) = Some ''unittest''"
    by (simp_all add: build_query_def default_args_def)
  have b2: "qp_rows (build_query ?a2) = Some 0"
    by (simp add: build_query_def default_args_def)
  have b3: "qp_q (build_query default_args) = Some []"
    by (simp add: build_query_def default_args_def)
  have b4: "qp_rows (build_query ?a4) = Some 50"
    "qp_q (build_query ?a4) = Some ('' author:'' @ [CHR 0x22] @ ''Sudilovsky'' @ [CHR 0x22])"
    by (simp_all add: build_query_def default_args_def kwarg_term_def)
  from SearchQuery_init_checks [of True ?a1] b1
  have "\<not> (\<exists>e. SearchQuery_init True ?a1 = Inl e)" by simp
  then obtain s where s: "SearchQuery_init True ?a1 = Inr s"
    by (cases "SearchQuery_init True ?a1") auto
  with SearchQuery_init_checks [of True ?a1] b1
  have c1: "\<exists>s. SearchQuery_init True ?a1 = Inr s \<and> qp_rows (sq_query s) = Some 1
      \<and> qp_q (sq_query s) = Some ''unittest''"
    by simp
  from SearchQuery_init_checks [of True ?a2] b2
  have c2: "\<exists>e. SearchQuery_init True ?a2 = Inl e" by simp
  from SearchQuery_init_checks [of True default_args] b3
  have c3: "\<exists>e. SearchQuery_init True default_args = Inl e" by simp
  from SearchQuery_init_checks [of True ?a4] b4
  have "\<not> (\<exists>e. SearchQuery_init True ?a4 = Inl e)" by simp
  then have c4: "\<exists>s. SearchQuery_init True ?a4 = Inr s"
    by (cases "SearchQuery_init True ?a4") auto
  from c1 c2 c3 c4 show ?thesis by blast
qed

section \<open>The start offset\<close>

lemma execute_start:
  assumes "execute P s w = (Inr u, s', w')"
  shows "\<exists>st r. qp_start (sq_query s) = Some st \<and> qp_rows (sq_query s) = Some r
           \<and> sq_query s' = (sq_query s)\<lparr>qp_start := Some (st + r)\<rparr>"
  using assms
  by (auto simp: execute_def session_get_def Let_def split: prod.splits sum.splits option.splits)

lemma execute_times_start_from:
  assumes "qp_start (sq_query s) = Some a" and "qp_rows (sq_query s) = Some r"
    and "execute_times k P s w = (Inr (), s', w')"
  shows "qp_start (sq_query s') = Some (a + int k * r) \<and> qp_rows (sq_query s') = Some r"
  using assms
proof (induction k arbitrary: s w a)
  case 0
  then show ?case by simp
next
  case (Suc k)
  from Suc.prems(3) obtain s1 w1 where
    e: "execute P s w = (Inr (), s1, w1)" and rest: "execute_times k P s1 w1 = (Inr (), s', w')"
    by (auto split: prod.splits sum.splits)
  from execute_start [OF e] Suc.prems(1,2)
  have q1: "sq_query s1 = (sq_query s)\<lparr>qp_start := Some (a + r)\<rparr>"
    by auto
  then have "qp_start (sq_query s1) = Some (a + r)" and "qp_rows (sq_query s1) = Some r"
    using Suc.prems(2) by simp_all
  from Suc.IH [OF this rest] show ?case
    by (simp add: algebra_simps)
qed

text \<open>
  C3.  When the start offset of a query is 0 and \<open>k\<close> calls of \<open>execute()\<close> in a row
  all return, the start offset is \<open>k * rows\<close> afterwards, and \<open>rows\<close> is what it was.
\<close>

theorem execute_times_start:
  assumes "qp_start (sq_query s) = Some 0" and "qp_rows (sq_query s) = Some r"
    and "execute_times k P s w = (Inr (), s', w')"
  shows "qp_start (sq_query s') = Some (int k * r) \<and> qp_rows (sq_query s') = Some r"
  using execute_times_start_from [OF assms] by simp

theorem execute_times_start_witness:
  "qp_start (sq_query example_query) = Some 0 \<and> qp_rows (sq_query example_query) = Some 1
   \<and> fst (execute_times 3 (example_platform True (example_docs 5)) example_query empty_world)
       = Inr ()
   \<and> qp_start (sq_query (fst (snd (execute_times 3 (example_platform True (example_docs 5))
                                        example_query empty_world)))) = Some 3"
proof -
  let ?X = "execute_times 3 (example_platform True (example_docs 5)) example_query empty_world"
  have a: "qp_start (sq_query example_query) = Some 0"
    and b: "qp_rows (sq_query example_query) = Some 1"
    by (simp_all add: example_query_def)
  have c: "fst ?X = Inr ()" by code_simp
  then have d: "?X = (Inr (), fst (snd ?X), snd (snd ?X))"
    by (metis prod.collapse)
  from execute_times_start [OF a b d] a b c show ?thesis by simp
qed

section \<open>Resolving the token\<close>

lemma first_environ_first:
  assumes "\<forall>n\<in>set pre. env n = None" and "env name = Some v"
  shows "first_environ env (pre @ name # post) = Some v"
  using assms by (induction pre) simp_all

lemma first_environ_unset:
  assumes "\<forall>n\<in>set names. env n = None"
  shows "first_environ env names = None"
  using assms by (induction names) simp_all

lemma first_file_first:
  assumes "\<forall>g\<in>set pre. fs g = Inl IOError" and "fs f = Inr content"
  shows "first_file fs (pre @ f # post) = Some (Inr content)"
  using assms by (induction pre) simp_all

lemma first_file_raises:
  assumes "\<forall>g\<in>set pre. fs g = Inl IOError" and "fs f = Inl e" and "e \<noteq> IOError"
  shows "first_file fs (pre @ f # post) = Some (Inl e)"
  using assms by (induction pre) simp_all

lemma first_file_unreadable:
  assumes "\<forall>g\<in>set files. fs g = Inl IOError"
  shows "first_file fs files = None"
  using assms by (induction files) simp_all

lemma token_memo:
  "bq_token self = Some t \<Longrightarrow> token P C self w = (Inr (Some t), self, w)"
  by (simp add: token_def)

lemma token_stored:
  assumes "fst (token P C self w) = Inr (Some v)"
  shows "bq_token (fst (snd (token P C self w))) = Some v"
  using assms by (auto simp: token_def split: option.splits sum.splits)

text \<open>
  C7 (as amended).  While no token is stored, the token property reads the environment
  variables in the configured order and takes the value of the first one that is set,
  empty or not.  When none is set it goes through the files in the configured order: a
  file whose opening or reading raises \<open>IOError\<close> is passed over; the first file that
  does not is read, and the token is what \<open>str.strip\<close> leaves of its content, empty or
  not; an exception other than \<open>IOError\<close> from opening or reading that file leaves the
  property, and nothing is stored.  When no variable is set and every file raises
  \<open>IOError\<close>, the property issues the warning \<open>No token found\<close> and returns \<open>None\<close>,
  storing nothing.  A token that was found is stored on the query object, and a stored
  token, found or set through the setter, is returned by every later access without
  reading the sources or warning.
\<close>

theorem token_resolution:
  "(bq_token self = Some t \<longrightarrow> token P C self w = (Inr (Some t), self, w))
   \<and> (bq_token self = None \<longrightarrow>
        (TOKEN_ENVIRON_VARS C = pre @ name # post
           \<and> (\<forall>n\<in>set pre. environ C n = None) \<and> environ C name = Some v \<longrightarrow>
         token P C self w = (Inr (Some v), self\<lparr>bq_token := Some v\<rparr>, w))
      \<and> ((\<forall>n\<in>set (TOKEN_ENVIRON_VARS C). environ C n = None) \<longrightarrow>
           (TOKEN_FILES C = fpre @ f # fpost
              \<and> (\<forall>g\<in>set fpre. read_file C g = Inl IOError)
              \<and> read_file C f = Inr content \<longrightarrow>
            token P C self w =
              (Inr (Some (str_strip P content)),
               self\<lparr>bq_token := Some (str_strip P content)\<rparr>, w))
         \<and> (TOKEN_FILES C = fpre @ f # fpost
              \<and> (\<forall>g\<in>set fpre. read_file C g = Inl IOError)
              \<and> read_file C f = Inl e \<and> e \<noteq> IOError \<longrightarrow>
            token P C self w = (Inl e, self, w))
         \<and> ((\<forall>g\<in>set (TOKEN_FILES C). read_file C g = Inl IOError) \<longrightarrow>
              token P C self w = (Inr None, self, warn ''No token found'' w))))
   \<and> (fst (token P C self w) = Inr (Some v') \<longrightarrow>
        token P' C' (fst (snd (token P C self w))) w' =
          (Inr (Some v'), fst (snd (token P C self w)), w'))
   \<and> token P C (token_setter self (Some t')) w
       = (Inr (Some t'), token_setter self (Some t'), w)"
proof (intro conjI impI)
  assume "bq_token self = Some t"
  then show "token P C self w = (Inr (Some t), self, w)" by (rule token_memo)
next
  assume n: "bq_token self = None"
    and "TOKEN_ENVIRON_VARS C = pre @ name # post
           \<and> (\<forall>n\<in>set pre. environ C n = None) \<and> environ C name = Some v"
  then have "first_environ (environ C) (TOKEN_ENVIRON_VARS C) = Some v"
    by (simp add: first_environ_first)
  with n show "token P C self w = (Inr (Some v), self\<lparr>bq_token := Some v\<rparr>, w)"
    by (simp add: token_def)
next
  assume n: "bq_token self = None"
    and u: "\<forall>n\<in>set (TOKEN_ENVIRON_VARS C). environ C n = None"
    and "TOKEN_FILES C = fpre @ f # fpost
              \<and> (\<forall>g\<in>set fpre. read_file C g = Inl IOError)
              \<and> read_file C f = Inr content"
  then have "first_file (read_file C) (TOKEN_FILES C) = Some (Inr content)"
    by (simp add: first_file_first)
  with n first_environ_unset [OF u]
  show "token P C self w =
      (Inr (Some (str_strip P content)), self\<lparr>bq_token := Some (str_strip P content)\<rparr>, w)"
    by (simp add: token_def)
next
  assume n: "bq_token self = None"
    and u: "\<forall>n\<in>set (TOKEN_ENVIRON_VARS C). environ C n = None"
    and "TOKEN_FILES C = fpre @ f # fpost
              \<and> (\<forall>g\<in>set fpre. read_file C g = Inl IOError)
              \<and> read_file C f = Inl e \<and> e \<noteq> IOError"
  then have "first_file (read_file C) (TOKEN_FILES C) = Some (Inl e)"
    by (simp add: first_file_raises)
  with n first_environ_unset [OF u]
  show "token P C self w = (Inl e, self, w)"
    by (simp add: token_def)
next
  assume n: "bq_token self = None"
    and u: "\<forall>n\<in>set (TOKEN_ENVIRON_VARS C). environ C n = None"
    and g: "\<forall>g\<in>set (TOKEN_FILES C). read_file C g = Inl IOError"
  from n first_environ_unset [OF u] first_file_unreadable [OF g]
  show "token P C self w = (Inr None, self, warn ''No token found'' w)"
    by (simp add: token_def)
next
  assume "fst (token P C self w) = Inr (Some v')"
  then have "bq_token (fst (snd (token P C self w))) = Some v'" by (rule token_stored)
  then show "token P' C' (fst (snd (token P C self w))) w' =
          (Inr (Some v'), fst (snd (token P C self w)), w')"
    by (rule token_memo)
next
  show "token P C (token_setter self (Some t')) w
      = (Inr (Some t'), token_setter self (Some t'), w)"
    by (simp add: token_memo token_setter_def)
qed

theorem token_resolution_witness:
  "token (example_platform True []) sources_empty_variable fresh_base_query empty_world
     = (Inr (Some []), fresh_base_query\<lparr>bq_token := Some []\<rparr>, empty_world)
   \<and> token (example_platform True []) sources_dev_key_file fresh_base_query empty_world
     = (Inr (Some ''secret''), fresh_base_query\<lparr>bq_token := Some ''secret''\<rparr>, empty_world)
   \<and> token (example_platform True []) sources_undecodable fresh_base_query empty_world
     = (Inl UnicodeDecodeError, fresh_base_query, empty_world)
   \<and> token (example_platform True []) sources_none fresh_base_query empty_world
     = (Inr None, fresh_base_query, warn ''No token found'' empty_world)
   \<and> token (example_platform True []) sources_none
       (fresh_base_query\<lparr>bq_token := Some ''secret''\<rparr>) empty_world
     = (Inr (Some ''secret''), fresh_base_query\<lparr>bq_token := Some ''secret''\<rparr>, empty_world)"
proof (intro conjI)
  show "token (example_platform True []) sources_empty_variable fresh_base_query empty_world
     = (Inr (Some []), fresh_base_query\<lparr>bq_token := Some []\<rparr>, empty_world)"
    using token_resolution [of fresh_base_query _ "example_platform True []"
        sources_empty_variable empty_world "[]" "''ADS_API_TOKEN''" "[''ADS_DEV_KEY'']" "[]"]
    by (simp add: sources_empty_variable_def fresh_base_query_def)
next
  have "str_strip (example_platform True []) (''secret'' @ [CHR 0x0A]) = ''secret''"
    by (simp add: example_platform_def strip_blanks_def)
  then show "token (example_platform True []) sources_dev_key_file fresh_base_query empty_world
     = (Inr (Some ''secret''), fresh_base_query\<lparr>bq_token := Some ''secret''\<rparr>, empty_world)"
    using token_resolution [of fresh_base_query _ "example_platform True []"
        sources_dev_key_file empty_world
        _ _ _ _ "[''~/.ads/token'']" "''~/.ads/dev_key''" "[]" "''secret'' @ [CHR 0x0A]"]
    by (simp add: sources_dev_key_file_def fresh_base_query_def)
next
  show "token (example_platform True []) sources_undecodable fresh_base_query empty_world
     = (Inl UnicodeDecodeError, fresh_base_query, empty_world)"
    using token_resolution [of fresh_base_query _ "example_platform True []"
        sources_undecodable empty_world
        _ _ _ _ "[]" "''~/.ads/token''" "[''~/.ads/dev_key'']" _ UnicodeDecodeError]
    by (simp add: sources_undecodable_def fresh_base_query_def)
next
  show "token (example_platform True []) sources_none fresh_base_query empty_world
     = (Inr None, fresh_base_query, warn ''No token found'' empty_world)"
    using token_resolution [of fresh_base_query _ "example_platform True []" sources_none
        empty_world]
    by (simp add: sources_none_def fresh_base_query_def)
next
  show "token (example_platform True []) sources_none
       (fresh_base_query\<lparr>bq_token := Some ''secret''\<rparr>) empty_world
     = (Inr (Some ''secret''), fresh_base_query\<lparr>bq_token := Some ''secret''\<rparr>, empty_world)"
    using token_resolution [of "fresh_base_query\<lparr>bq_token := Some ''secret''\<rparr>" "''secret''"
        "example_platform True []" sources_none empty_world]
    by simp
qed

theorem token_resolution_counterexample:
  "fst (token (example_platform True []) sources_empty_variable fresh_base_query empty_world)
     = Inr (Some [])
   \<and> environ sources_empty_variable ''ADS_DEV_KEY'' = Some ''secret''
   \<and> fst (token (example_platform True []) sources_blank_file fresh_base_query empty_world)
     = Inr (Some [])
   \<and> read_file sources_blank_file ''~/.ads/dev_key'' = Inr ''secret''
   \<and> warnings (snd (snd (token (example_platform True []) sources_none
                 (fst (snd (token (example_platform True []) sources_none
                              fresh_base_query empty_world)))
                 (snd (snd (token (example_platform True []) sources_none
                              fresh_base_query empty_world))))))
       = [''No token found'', ''No token found'']"
  by (simp add: token_def sources_empty_variable_def sources_blank_file_def sources_none_def
      fresh_base_query_def empty_world_def warn_def example_platform_def strip_blanks_def)

section \<open>Paging through a result set\<close>

lemma Article_init_accepted:
  assumes "accepted u kwargs"
  shows "Article_init u kwargs w = (Inr (Article_of kwargs), id_warning kwargs w)"
proof -
  from assms obtain d1 where d: "set_attributes u kwargs [''_raw'' \<mapsto> PyDict kwargs] = Inr d1"
    by (cases "set_attributes u kwargs [''_raw'' \<mapsto> PyDict kwargs]")
       (simp_all add: accepted_def)
  from set_attributes_native [OF d] d assms
  show ?thesis by (simp add: Article_init_def Article_of_def accepted_def)
qed

lemma Article_init_unaccepted:
  assumes "\<not> accepted u kwargs"
  shows "\<exists>e. fst (Article_init u kwargs w) = Inl e"
  using assms
  by (cases "set_attributes u kwargs [''_raw'' \<mapsto> PyDict kwargs]")
     (auto simp: Article_init_def accepted_def)

lemma settable_accepted: "settable kwargs \<Longrightarrow> accepted u kwargs"
  using set_attributes_settable [of kwargs u "[''_raw'' \<mapsto> PyDict kwargs]"]
    settable_no_self [of kwargs]
  by (auto simp: accepted_def)

lemma accepted_page:
  "list_all settable ds \<Longrightarrow> list_all (accepted u) (take n (drop i ds))"
  by (auto simp: list_all_iff settable_accepted dest!: in_set_takeD in_set_dropD)

lemma append_articles_accepted:
  "list_all (accepted (\<not> py3)) ks \<Longrightarrow>
   append_articles py3 (map PyDict ks) acc w
     = (None, acc @ map Article_of ks, wrap_warnings ks w)"
proof (induction ks arbitrary: acc w)
  case Nil
  then show ?case by (simp add: wrap_warnings_def)
next
  case (Cons k ks)
  then have k: "accepted (\<not> py3) k" and ks: "list_all (accepted (\<not> py3)) ks" by simp_all
  have "append_articles py3 (map PyDict (k # ks)) acc w
        = append_articles py3 (map PyDict ks) (acc @ [Article_of k]) (id_warning k w)"
    by (simp add: Article_init_accepted [OF k])
  also have "\<dots> = (None, (acc @ [Article_of k]) @ map Article_of ks,
                    wrap_warnings ks (id_warning k w))"
    by (rule Cons.IH [OF ks])
  finally show ?case by (simp add: wrap_warnings_def)
qed

lemma append_articles_unaccepted:
  "\<not> list_all (accepted (\<not> py3)) ks
   \<Longrightarrow> fst (append_articles py3 (map PyDict ks) acc w) \<noteq> None"
proof (induction ks arbitrary: acc w)
  case Nil
  then show ?case by simp
next
  case (Cons k ks)
  obtain o1 w1 where i: "Article_init (\<not> py3) k w = (o1, w1)"
    by (cases "Article_init (\<not> py3) k w")
  show ?case
  proof (cases o1)
    case (Inl e)
    with i show ?thesis by simp
  next
    case (Inr a)
    with i Article_init_unaccepted [of "\<not> py3" k w] have "accepted (\<not> py3) k" by auto
    with Cons.prems have "\<not> list_all (accepted (\<not> py3)) ks" by simp
    from Cons.IH [OF this] i Inr show ?thesis by simp
  qed
qed

lemma execute_serves:
  assumes sv: "serves P ds"
    and st: "qp_start (sq_query s) = Some st" and r: "qp_rows (sq_query s) = Some r"
    and pos: "0 \<le> st" "0 < r"
  shows "\<exists>sr w'. numFound sr = PyInt (int (length ds))
           \<and> requests w' = requests w @ [sq_query s]
           \<and> (list_all (accepted (\<not> PY3 P)) (take (nat r) (drop (nat st) ds)) \<and>
               execute P s w =
                 (Inr (),
                  s\<lparr>sq_response := Some sr,
                    sq_articles := sq_articles s @ map Article_of (take (nat r) (drop (nat st) ds)),
                    sq_query := (sq_query s)\<lparr>qp_start := Some (st + r)\<rparr>\<rparr>, w')
               \<or> (\<not> list_all (accepted (\<not> PY3 P)) (take (nat r) (drop (nat st) ds))
                   \<and> (\<exists>e. execute P s w = (Inl e, s\<lparr>sq_response := Some sr\<rparr>, w')
                          \<and> (\<forall>m. e \<noteq> StopIteration m))))"
proof -
  let ?page = "take (nat r) (drop (nat st) ds)"
  let ?resp = "respond P (requests w) (sq_query s)"
  let ?w1 = "w\<lparr>requests := requests w @ [sq_query s]\<rparr>"
  from sv st r pos obtain sr0 where ok: "resp_ok ?resp"
    and i: "SolrResponse_init P (resp_text ?resp) = Inr sr0"
    and n: "numFound sr0 = PyInt (int (length ds))"
    and d: "docs sr0 = PyList (map PyDict ?page)"
    unfolding serves_def by blast
  let ?sr1 = "sr0\<lparr>response := HttpResponse ?resp\<rparr>"
  have l: "load_http_response (SolrResponse_init P) ?resp = Inr ?sr1"
    using ok i by (simp add: load_http_response_def)
  have f: "sr_articles ?sr1 = None"
    using SolrResponse_init_fresh [OF i] by simp
  obtain e1 acc w2 where a: "append_articles (PY3 P) (map PyDict ?page) [] ?w1 = (e1, acc, w2)"
    by (cases "append_articles (PY3 P) (map PyDict ?page) [] ?w1") auto
  from append_articles_requests [of "PY3 P" "map PyDict ?page" "[]" ?w1] a
  have rq: "requests w2 = requests w @ [sq_query s]" by simp
  have nf: "numFound (?sr1\<lparr>sr_articles := Some acc\<rparr>) = PyInt (int (length ds))"
    using n by simp
  show ?thesis
  proof (cases e1)
    case None
    with a have acc: "acc = map Article_of ?page"
      using append_articles_None [of "PY3 P" ?page "[]" ?w1 acc w2] by simp
    have stb: "list_all (accepted (\<not> PY3 P)) ?page"
      using append_articles_unaccepted [of "PY3 P" ?page "[]" ?w1] a None by auto
    have "SolrResponse_articles P ?sr1 ?w1 = (Inr acc, ?sr1\<lparr>sr_articles := Some acc\<rparr>, w2)"
      using a None f d by (simp add: SolrResponse_articles_def)
    then have "execute P s w =
        (Inr (),
         s\<lparr>sq_response := Some (?sr1\<lparr>sr_articles := Some acc\<rparr>),
           sq_articles := sq_articles s @ map Article_of ?page,
           sq_query := (sq_query s)\<lparr>qp_start := Some (st + r)\<rparr>\<rparr>, w2)"
      using l st r acc by (simp add: execute_def session_get_def Let_def)
    with nf rq stb show ?thesis by blast
  next
    case (Some e)
    have ns: "\<not> list_all (accepted (\<not> PY3 P)) ?page"
    proof
      assume "list_all (accepted (\<not> PY3 P)) ?page"
      from append_articles_accepted [OF this, of "[]" ?w1] a Some show False by simp
    qed
    have "SolrResponse_articles P ?sr1 ?w1 = (Inl e, ?sr1\<lparr>sr_articles := Some acc\<rparr>, w2)"
      using a Some f d by (simp add: SolrResponse_articles_def)
    then have x: "execute P s w = (Inl e, s\<lparr>sq_response := Some (?sr1\<lparr>sr_articles := Some acc\<rparr>)\<rparr>, w2)"
      using l by (simp add: execute_def session_get_def Let_def)
    have "\<forall>m. e \<noteq> StopIteration m"
      using append_articles_not_StopIteration [of "PY3 P" "map PyDict ?page" "[]" ?w1] a Some by auto
    with x nf rq ns show ?thesis by blast
  qed
qed

lemma take_next_page:
  "take (k * n) ds @ take n (drop (k * n) ds) = take (Suc k * n) ds"
proof -
  have "Suc k * n = k * n + n" by simp
  then show ?thesis by (simp only: take_add)
qed

lemma execute_paging:
  assumes sv: "serves P ds" and pg: "paging ds r k s"
    and ex: "execute P s w = (out, s', w')"
  shows "iter_counter s' = iter_counter s \<and> max_pages s' = max_pages s
         \<and> sq_response s' \<noteq> None
         \<and> (out = Inr () \<longrightarrow> paging ds r (Suc k) s'
               \<and> list_all (accepted (\<not> PY3 P)) (take (nat r) (drop (k * nat r) ds)))
         \<and> (\<forall>e. out = Inl e \<longrightarrow> paging ds r k s' \<and> (\<forall>m. e \<noteq> StopIteration m)
                \<and> \<not> list_all (accepted (\<not> PY3 P)) (take (nat r) (drop (k * nat r) ds)))"
proof -
  from pg have r: "0 < r" "qp_rows (sq_query s) = Some r"
    and st: "qp_start (sq_query s) = Some (int k * r)"
    and ar: "sq_articles s = map Article_of (take (k * nat r) ds)"
    and ic: "iter_counter s \<le> length (sq_articles s)"
    unfolding paging_def by blast+
  have nn: "0 \<le> int k * r" using r by simp
  have ns: "nat (int k * r) = k * nat r" using r by (simp add: nat_mult_distrib)
  from execute_serves [OF sv st r(2) nn r(1), of w] obtain sr w1 where
    n: "numFound sr = PyInt (int (length ds))"
    and c: "list_all (accepted (\<not> PY3 P)) (take (nat r) (drop (k * nat r) ds)) \<and>
            execute P s w =
              (Inr (),
               s\<lparr>sq_response := Some sr,
                 sq_articles := sq_articles s @ map Article_of (take (nat r) (drop (k * nat r) ds)),
                 sq_query := (sq_query s)\<lparr>qp_start := Some (int k * r + r)\<rparr>\<rparr>, w1)
            \<or> (\<not> list_all (accepted (\<not> PY3 P)) (take (nat r) (drop (k * nat r) ds))
                \<and> (\<exists>e. execute P s w = (Inl e, s\<lparr>sq_response := Some sr\<rparr>, w1)
                       \<and> (\<forall>m. e \<noteq> StopIteration m)))"
    unfolding ns by blast
  from c show ?thesis
  proof
    assume "list_all (accepted (\<not> PY3 P)) (take (nat r) (drop (k * nat r) ds)) \<and>
            execute P s w =
              (Inr (),
               s\<lparr>sq_response := Some sr,
                 sq_articles := sq_articles s @ map Article_of (take (nat r) (drop (k * nat r) ds)),
                 sq_query := (sq_query s)\<lparr>qp_start := Some (int k * r + r)\<rparr>\<rparr>, w1)"
    with ex have o: "out = Inr ()"
      and stb: "list_all (accepted (\<not> PY3 P)) (take (nat r) (drop (k * nat r) ds))"
      and s': "s' = s\<lparr>sq_response := Some sr,
                 sq_articles := sq_articles s @ map Article_of (take (nat r) (drop (k * nat r) ds)),
                 sq_query := (sq_query s)\<lparr>qp_start := Some (int k * r + r)\<rparr>\<rparr>"
      by simp_all
    have "sq_articles s' = map Article_of (take (Suc k * nat r) ds)"
      unfolding s' using ar take_next_page [of k "nat r" ds, symmetric] by simp
    moreover have "qp_start (sq_query s') = Some (int (Suc k) * r)"
      unfolding s' by (simp add: algebra_simps)
    moreover have "iter_counter s' \<le> length (sq_articles s')"
      unfolding s' using ic by simp
    ultimately have "paging ds r (Suc k) s'"
      using r n unfolding paging_def by (simp add: s')
    with o stb show ?thesis by (simp add: s')
  next
    assume "\<not> list_all (accepted (\<not> PY3 P)) (take (nat r) (drop (k * nat r) ds))
                \<and> (\<exists>e. execute P s w = (Inl e, s\<lparr>sq_response := Some sr\<rparr>, w1)
                       \<and> (\<forall>m. e \<noteq> StopIteration m))"
    with ex obtain e where o: "out = Inl e" and s': "s' = s\<lparr>sq_response := Some sr\<rparr>"
      and e: "\<forall>m. e \<noteq> StopIteration m"
      and nst: "\<not> list_all (accepted (\<not> PY3 P)) (take (nat r) (drop (k * nat r) ds))"
      by auto
    have "paging ds r k s'"
      using r st ar ic n unfolding paging_def by (auto simp: s')
    with o e nst show ?thesis by (simp add: s')
  qed
qed


lemma page_number_full:
  assumes "0 < r"
  shows "page_number py3 (k * nat r) r = Inr (int k)"
proof -
  have i: "int (k * nat r) = int k * r" using assms by simp
  have "- ((- (int k * r)) div r) = int k"
  proof -
    have "- (int k * r) = (- int k) * r" by simp
    then have "(- (int k * r)) div r = - int k"
      using assms by (simp only: nonzero_mult_div_cancel_right)
    then show ?thesis by simp
  qed
  moreover have "(int k * r) div r = int k" using assms by simp
  ultimately show ?thesis using assms by (simp add: page_number_def i)
qed

lemma paging_length:
  "paging ds r k s \<Longrightarrow> length (sq_articles s) = min (k * nat r) (length ds)"
  by (simp add: paging_def min.commute)

lemma paging_nth:
  assumes "paging ds r k s" and "i < length (sq_articles s)"
  shows "sq_articles s ! i = Article_of (ds ! i)" and "i < length ds"
  using assms by (simp_all add: paging_def)

lemma try_next_paging:
  assumes sv: "serves P ds" and pg: "paging ds r k s" and rs: "sq_response s \<noteq> None"
    and tn: "try_next P s w = (out, s', w')"
  shows
    "(iter_counter s < length (sq_articles s) \<longrightarrow>
        out = Inr (Article_of (ds ! iter_counter s))
        \<and> s' = s\<lparr>iter_counter := Suc (iter_counter s)\<rparr> \<and> w' = w)
     \<and> (iter_counter s = length (sq_articles s) \<longrightarrow>
          (length ds \<le> k * nat r \<longrightarrow>
             out = Inl (StopIteration ''All records found'') \<and> s' = s \<and> w' = w)
        \<and> (k * nat r < length ds \<longrightarrow>
             (max_pages s < int k \<longrightarrow>
                out = Inl (StopIteration ''Maximum number of pages queried'') \<and> s' = s \<and> w' = w)
           \<and> (int k \<le> max_pages s \<longrightarrow>
                (list_all (accepted (\<not> PY3 P)) (take (nat r) (drop (k * nat r) ds)) \<longrightarrow>
                   out = Inr (Article_of (ds ! iter_counter s)) \<and> paging ds r (Suc k) s'
                   \<and> iter_counter s' = Suc (iter_counter s) \<and> max_pages s' = max_pages s
                   \<and> sq_response s' \<noteq> None)
              \<and> (\<not> list_all (accepted (\<not> PY3 P)) (take (nat r) (drop (k * nat r) ds)) \<longrightarrow>
                   (\<exists>e. out = Inl e \<and> (\<forall>m. e \<noteq> StopIteration m)) \<and> paging ds r k s'
                   \<and> iter_counter s' = iter_counter s \<and> max_pages s' = max_pages s
                   \<and> sq_response s' \<noteq> None))))"
proof -
  from pg have r: "0 < r" and rw: "qp_rows (sq_query s) = Some r" 
    unfolding paging_def by blast+
  from rs obtain sr where sr: "sq_response s = Some sr" by auto
  with pg have nf: "numFound sr = PyInt (int (length ds))" unfolding paging_def by blast
  note len = paging_length [OF pg]
  have hit: "iter_counter s < length (sq_articles s) \<Longrightarrow>
        out = Inr (Article_of (ds ! iter_counter s))
        \<and> s' = s\<lparr>iter_counter := Suc (iter_counter s)\<rparr> \<and> w' = w"
    using tn paging_nth(1) [OF pg] by (auto simp: try_next_def)
  have "int (length ds) \<le> int (length (sq_articles s)) \<longleftrightarrow> length ds \<le> k * nat r"
    unfolding len by auto
  then have ge: "int_ge (PY3 P) (int (length (sq_articles s))) (numFound sr)
      = Inr (length ds \<le> k * nat r)"
    unfolding nf by simp
  have allf: "iter_counter s = length (sq_articles s) \<Longrightarrow> length ds \<le> k * nat r \<Longrightarrow>
        out = Inl (StopIteration ''All records found'') \<and> s' = s \<and> w' = w"
    using tn sr ge by (simp add: try_next_def)
  have more: "k * nat r < length ds \<Longrightarrow> length (sq_articles s) = k * nat r"
    using len by simp
  have pn: "k * nat r < length ds \<Longrightarrow>
      page_number (PY3 P) (length (sq_articles s)) r = Inr (int k)"
    using more page_number_full [OF r, of "PY3 P" k] by simp
  have maxp: "iter_counter s = length (sq_articles s) \<Longrightarrow> k * nat r < length ds \<Longrightarrow>
        max_pages s < int k \<Longrightarrow>
        out = Inl (StopIteration ''Maximum number of pages queried'') \<and> s' = s \<and> w' = w"
    using tn sr ge rw pn by (simp add: try_next_def)
  have fetch: "iter_counter s = length (sq_articles s) \<Longrightarrow> k * nat r < length ds \<Longrightarrow>
        int k \<le> max_pages s \<Longrightarrow>
        try_next P s w =
          (case execute P s w of
             (Inl e, s2, w2) \<Rightarrow> (Inl e, s2, w2)
           | (Inr u2, s2, w2) \<Rightarrow>
               if iter_counter s2 < length (sq_articles s2)
               then (Inr (sq_articles s2 ! iter_counter s2),
                     s2\<lparr>iter_counter := Suc (iter_counter s2)\<rparr>, w2)
               else (Inl IndexError, s2, w2))"
    using sr ge rw pn by (simp add: try_next_def)
  obtain o2 s2 w2 where ex: "execute P s w = (o2, s2, w2)" by (cases "execute P s w") auto
  note ep = execute_paging [OF sv pg ex]
  have good: "iter_counter s = length (sq_articles s) \<Longrightarrow> k * nat r < length ds \<Longrightarrow>
        int k \<le> max_pages s \<Longrightarrow> list_all (accepted (\<not> PY3 P)) (take (nat r) (drop (k * nat r) ds)) \<Longrightarrow>
        out = Inr (Article_of (ds ! iter_counter s)) \<and> paging ds r (Suc k) s'
        \<and> iter_counter s' = Suc (iter_counter s) \<and> max_pages s' = max_pages s
        \<and> sq_response s' \<noteq> None"
  proof -
    assume a: "iter_counter s = length (sq_articles s)" "k * nat r < length ds"
      "int k \<le> max_pages s" and stb: "list_all (accepted (\<not> PY3 P)) (take (nat r) (drop (k * nat r) ds))"
    from ep stb have o2: "o2 = Inr ()" by (cases o2) auto
    with ep have p2: "paging ds r (Suc k) s2" and i2: "iter_counter s2 = iter_counter s"
      and m2: "max_pages s2 = max_pages s" and r2: "sq_response s2 \<noteq> None"
      by simp_all
    have "k * nat r < min (Suc k * nat r) (length ds)" using a(2) r by simp
    then have lt: "iter_counter s2 < length (sq_articles s2)"
      using paging_length [OF p2] i2 a(1) more [OF a(2)] by simp
    from fetch [OF a] ex o2 lt tn
    have res: "out = Inr (sq_articles s2 ! iter_counter s2)"
      "s' = s2\<lparr>iter_counter := Suc (iter_counter s2)\<rparr>"
      by simp_all
    from paging_nth(1) [OF p2 lt] res i2
    have "out = Inr (Article_of (ds ! iter_counter s))" by simp
    moreover have "paging ds r (Suc k) s'"
      using p2 lt unfolding paging_def res(2) by simp
    ultimately show ?thesis using res i2 m2 r2 by simp
  qed
  have bad: "iter_counter s = length (sq_articles s) \<Longrightarrow> k * nat r < length ds \<Longrightarrow>
        int k \<le> max_pages s \<Longrightarrow> \<not> list_all (accepted (\<not> PY3 P)) (take (nat r) (drop (k * nat r) ds)) \<Longrightarrow>
        (\<exists>e. out = Inl e \<and> (\<forall>m. e \<noteq> StopIteration m)) \<and> paging ds r k s'
        \<and> iter_counter s' = iter_counter s \<and> max_pages s' = max_pages s
        \<and> sq_response s' \<noteq> None"
  proof -
    assume a: "iter_counter s = length (sq_articles s)" "k * nat r < length ds"
      "int k \<le> max_pages s" and nst: "\<not> list_all (accepted (\<not> PY3 P)) (take (nat r) (drop (k * nat r) ds))"
    from ep nst obtain e where o2: "o2 = Inl e" by (cases o2) auto
    with ep have p2: "paging ds r k s2" and i2: "iter_counter s2 = iter_counter s"
      and m2: "max_pages s2 = max_pages s" and r2: "sq_response s2 \<noteq> None"
      and e: "\<forall>m. e \<noteq> StopIteration m"
      by simp_all
    from fetch [OF a] ex o2 tn have "out = Inl e" "s' = s2" by simp_all
    with p2 i2 m2 r2 e show ?thesis by simp
  qed
  from hit allf maxp good bad show ?thesis by blast
qed


lemma paging_cursor:
  "paging ds r k s \<Longrightarrow> iter_counter s \<le> length (sq_articles s)"
  unfolding paging_def by blast

lemma paging_advance:
  assumes "paging ds r k s" and "iter_counter s < length (sq_articles s)"
  shows "paging ds r k (s\<lparr>iter_counter := Suc (iter_counter s)\<rparr>)"
  using assms unfolding paging_def by auto

lemma paging_max_pages:
  "paging ds r k s \<Longrightarrow> paging ds r k (s\<lparr>max_pages := m\<rparr>)"
  unfolding paging_def by auto

lemma try_next_outcomes:
  assumes sv: "serves P ds" and pg: "paging ds r k s" and rs: "sq_response s \<noteq> None"
    and tn: "try_next P s w = (out, s', w')"
  shows "(\<exists>k'. paging ds r k' s') \<and> max_pages s' = max_pages s \<and> sq_response s' \<noteq> None
    \<and> (\<forall>a. out = Inr a \<longrightarrow>
          a = Article_of (ds ! iter_counter s) \<and> iter_counter s < length ds
          \<and> iter_counter s' = Suc (iter_counter s))
    \<and> (\<forall>e. out = Inl e \<longrightarrow> iter_counter s' = iter_counter s)
    \<and> (out = Inl (StopIteration ''Maximum number of pages queried'') \<longrightarrow>
          s' = s \<and> w' = w \<and> iter_counter s = length (sq_articles s)
          \<and> k * nat r < length ds \<and> max_pages s < int k)
    \<and> (out = Inl (StopIteration ''All records found'') \<longrightarrow>
          s' = s \<and> w' = w \<and> iter_counter s = length (sq_articles s)
          \<and> length ds \<le> k * nat r)"
proof -
  note t = try_next_paging [OF sv pg rs tn]
  note len = paging_length [OF pg]
  consider (hit) "iter_counter s < length (sq_articles s)"
    | (all) "iter_counter s = length (sq_articles s)" "length ds \<le> k * nat r"
    | (maxp) "iter_counter s = length (sq_articles s)" "k * nat r < length ds"
        "max_pages s < int k"
    | (good) "iter_counter s = length (sq_articles s)" "k * nat r < length ds"
        "int k \<le> max_pages s" "list_all (accepted (\<not> PY3 P)) (take (nat r) (drop (k * nat r) ds))"
    | (bad) "iter_counter s = length (sq_articles s)" "k * nat r < length ds"
        "int k \<le> max_pages s" "\<not> list_all (accepted (\<not> PY3 P)) (take (nat r) (drop (k * nat r) ds))"
    using paging_cursor [OF pg] by fastforce
  then show ?thesis
  proof cases
    case hit
    with t have o: "out = Inr (Article_of (ds ! iter_counter s))"
      and s': "s' = s\<lparr>iter_counter := Suc (iter_counter s)\<rparr>"
      by simp_all
    from paging_advance [OF pg hit] s' have "paging ds r k s'" by simp
    with o s' rs paging_nth(2) [OF pg hit] show ?thesis by auto
  next
    case all
    with t have "out = Inl (StopIteration ''All records found'')" "s' = s" "w' = w"
      by simp_all
    with pg rs all show ?thesis by auto
  next
    case maxp
    with t have "out = Inl (StopIteration ''Maximum number of pages queried'')" "s' = s" "w' = w"
      by simp_all
    with pg rs maxp show ?thesis by auto
  next
    case good
    with t have "out = Inr (Article_of (ds ! iter_counter s))" "paging ds r (Suc k) s'"
      "iter_counter s' = Suc (iter_counter s)" "max_pages s' = max_pages s"
      "sq_response s' \<noteq> None"
      by simp_all
    moreover have "iter_counter s < length ds" using good len by simp
    ultimately show ?thesis by auto
  next
    case bad
    with t obtain e where "out = Inl e" "\<forall>m. e \<noteq> StopIteration m" "paging ds r k s'"
      "iter_counter s' = iter_counter s" "max_pages s' = max_pages s" "sq_response s' \<noteq> None"
      by auto
    then show ?thesis by auto
  qed
qed

lemma next_reaches_try:
  assumes sv: "serves P ds" and pg: "paging ds r k s"
    and nx: "SearchQuery_next P s w = (out, s', w')"
  shows "(\<exists>e. out = Inl e \<and> (\<forall>m. e \<noteq> StopIteration m) \<and> paging ds r k s'
            \<and> iter_counter s' = iter_counter s \<and> max_pages s' = max_pages s)
       \<or> (\<exists>k1 s1 w1. paging ds r k1 s1 \<and> sq_response s1 \<noteq> None
            \<and> iter_counter s1 = iter_counter s \<and> max_pages s1 = max_pages s
            \<and> try_next P s1 w1 = (out, s', w'))"
proof (cases "sq_response s")
  case (Some sr)
  with nx have "try_next P s w = (out, s', w')" by (simp add: SearchQuery_next_def)
  with pg Some show ?thesis by blast
next
  case None
  obtain o1 s1 w1 where ex: "execute P s w = (o1, s1, w1)" by (cases "execute P s w") auto
  note ep = execute_paging [OF sv pg ex]
  show ?thesis
  proof (cases o1)
    case (Inl e)
    with nx None ex have "out = Inl e" "s' = s1" by (simp_all add: SearchQuery_next_def)
    with ep Inl show ?thesis by auto
  next
    case (Inr u)
    with nx None ex have "try_next P s1 w1 = (out, s', w')" by (simp add: SearchQuery_next_def)
    with ep Inr show ?thesis by auto
  qed
qed

lemma next_outcomes:
  assumes sv: "serves P ds" and pg: "paging ds r k s"
    and nx: "SearchQuery_next P s w = (out, s', w')"
  shows "(\<exists>k'. paging ds r k' s') \<and> max_pages s' = max_pages s
    \<and> (\<forall>a. out = Inr a \<longrightarrow>
          a = Article_of (ds ! iter_counter s) \<and> iter_counter s < length ds
          \<and> iter_counter s' = Suc (iter_counter s))
    \<and> (\<forall>e. out = Inl e \<longrightarrow> iter_counter s' = iter_counter s)
    \<and> (out = Inl (StopIteration ''Maximum number of pages queried'') \<longrightarrow>
          sq_response s' \<noteq> None \<and> iter_counter s' = length (sq_articles s')
          \<and> (\<exists>k1. paging ds r k1 s' \<and> k1 * nat r < length ds \<and> max_pages s' < int k1))
    \<and> (out = Inl (StopIteration ''All records found'') \<longrightarrow>
          sq_response s' \<noteq> None \<and> iter_counter s' = length (sq_articles s')
          \<and> (\<exists>k1. paging ds r k1 s' \<and> length ds \<le> k1 * nat r))"
  using next_reaches_try [OF sv pg nx]
proof
  assume "\<exists>e. out = Inl e \<and> (\<forall>m. e \<noteq> StopIteration m) \<and> paging ds r k s'
            \<and> iter_counter s' = iter_counter s \<and> max_pages s' = max_pages s"
  then show ?thesis by auto
next
  assume "\<exists>k1 s1 w1. paging ds r k1 s1 \<and> sq_response s1 \<noteq> None
            \<and> iter_counter s1 = iter_counter s \<and> max_pages s1 = max_pages s
            \<and> try_next P s1 w1 = (out, s', w')"
  then obtain k1 s1 w1 where p1: "paging ds r k1 s1" and r1: "sq_response s1 \<noteq> None"
    and i1: "iter_counter s1 = iter_counter s" and m1: "max_pages s1 = max_pages s"
    and tn: "try_next P s1 w1 = (out, s', w')"
    by blast
  note t = try_next_outcomes [OF sv p1 r1 tn]
  have a: "(\<exists>k'. paging ds r k' s') \<and> max_pages s' = max_pages s" using t m1 by simp
  have b: "\<forall>a. out = Inr a \<longrightarrow>
          a = Article_of (ds ! iter_counter s) \<and> iter_counter s < length ds
          \<and> iter_counter s' = Suc (iter_counter s)"
    using t i1 by simp
  have c: "\<forall>e. out = Inl e \<longrightarrow> iter_counter s' = iter_counter s" using t i1 by simp
  have d: "out = Inl (StopIteration ''Maximum number of pages queried'') \<longrightarrow>
          sq_response s' \<noteq> None \<and> iter_counter s' = length (sq_articles s')
          \<and> (\<exists>k1. paging ds r k1 s' \<and> k1 * nat r < length ds \<and> max_pages s' < int k1)"
    using t p1 r1 by auto
  have e: "out = Inl (StopIteration ''All records found'') \<longrightarrow>
          sq_response s' \<noteq> None \<and> iter_counter s' = length (sq_articles s')
          \<and> (\<exists>k1. paging ds r k1 s' \<and> length ds \<le> k1 * nat r)"
    using t p1 r1 by auto
  from a b c d e show ?thesis by blast
qed

section \<open>Iterating and resuming\<close>

lemma stop_message_Some:
  "stop_message x = Some m \<Longrightarrow> x = Inl (StopIteration m)"
  by (cases x rule: stop_message.cases) simp_all

lemma play_paging:
  assumes sv: "serves P ds"
  shows "paging ds r k s \<Longrightarrow> play P calls s w = (outs, s', w') \<Longrightarrow>
         (\<exists>k'. paging ds r k' s')
         \<and> map Article_of (take (iter_counter s') ds)
             = map Article_of (take (iter_counter s) ds) @ yielded outs
         \<and> iter_counter s' = iter_counter s + length (yielded outs)
         \<and> iter_counter s' \<le> length ds"
proof (induction calls arbitrary: k s w outs)
  case Nil
  then have "s' = s" "outs = []" by simp_all
  moreover have "iter_counter s \<le> length ds"
    using paging_cursor [OF Nil.prems(1)] paging_length [OF Nil.prems(1)] by simp
  ultimately show ?case using Nil.prems(1) by auto
next
  case (Cons c cs)
  show ?case
  proof (cases c)
    case Next
    obtain out s1 w1 where nx: "SearchQuery_next P s w = (out, s1, w1)"
      by (cases "SearchQuery_next P s w") auto
    obtain outs1 where pl: "play P cs s1 w1 = (outs1, s', w')" and o: "outs = out # outs1"
      using Cons.prems(2) Next nx by (auto split: prod.splits)
    note n = next_outcomes [OF sv Cons.prems(1) nx]
    from n obtain k1 where p1: "paging ds r k1 s1" by blast
    from Cons.IH [OF p1 pl]
    have A: "\<exists>k'. paging ds r k' s'"
      and B: "map Article_of (take (iter_counter s') ds)
               = map Article_of (take (iter_counter s1) ds) @ yielded outs1"
      and C: "iter_counter s' = iter_counter s1 + length (yielded outs1)"
      and D: "iter_counter s' \<le> length ds"
      by blast+
    show ?thesis
    proof (cases out)
      case (Inl e)
      with n have i1: "iter_counter s1 = iter_counter s" by simp
      have y: "yielded outs = yielded outs1" using o Inl by simp
      from A D B [unfolded i1] C [unfolded i1] show ?thesis unfolding y by blast
    next
      case (Inr a)
      with n have a: "a = Article_of (ds ! iter_counter s)" and lt: "iter_counter s < length ds"
        and i1: "iter_counter s1 = Suc (iter_counter s)"
        by simp_all
      have y: "yielded outs = a # yielded outs1" using o Inr by simp
      have step: "map Article_of (take (iter_counter s1) ds)
            = map Article_of (take (iter_counter s) ds) @ [a]"
        unfolding i1 a using lt by (simp add: take_Suc_conv_app_nth)
      have B': "map Article_of (take (iter_counter s') ds)
               = map Article_of (take (iter_counter s) ds) @ yielded outs"
        unfolding B step y by simp
      have C': "iter_counter s' = iter_counter s + length (yielded outs)"
        unfolding C i1 y by simp
      from A B' C' D show ?thesis by blast
    qed
  next
    case (SetMaxPages m)
    with Cons.prems(2) have pl: "play P cs (s\<lparr>max_pages := m\<rparr>) w = (outs, s', w')" by simp
    have e: "iter_counter (s\<lparr>max_pages := m\<rparr>) = iter_counter s" by simp
    from Cons.IH [OF paging_max_pages [OF Cons.prems(1)] pl, unfolded e] show ?thesis .
  qed
qed


lemma fresh_paging:
  assumes "SearchQuery_init py3 args = Inr s0" and "qp_start (sq_query s0) = Some 0"
  shows "\<exists>r. paging ds r 0 s0" and "iter_counter s0 = 0"
proof -
  from assms(1) obtain r where r: "qp_rows (build_query args) = Some r" "0 < r"
    and s0: "s0 = \<lparr>bq_token = None, sq_articles = [], sq_response = None,
                   max_pages = arg_max_pages args, iter_counter = 0,
                   sq_query = build_query args\<rparr>"
    by (auto simp: SearchQuery_init_def Let_def split: option.splits if_splits)
  from assms(2) r show "\<exists>r. paging ds r 0 s0"
    unfolding paging_def s0 by auto
  show "iter_counter s0 = 0" unfolding s0 by simp
qed

lemma next_started:
  assumes "sq_response s \<noteq> None"
  shows "SearchQuery_next P s w = try_next P s w"
proof -
  from assms obtain sr where "sq_response s = Some sr" by auto
  then show ?thesis by (simp add: SearchQuery_next_def)
qed

lemma resume_record:
  assumes sv: "serves P ds" and pg: "paging ds r k s"
    and nx: "SearchQuery_next P (s\<lparr>max_pages := m\<rparr>) w = (Inr x, s2, w2)"
  shows "x = Article_of (ds ! iter_counter s) \<and> iter_counter s < length ds"
  using next_outcomes [OF sv paging_max_pages [OF pg] nx] by simp

lemma resume_returns:
  assumes sv: "serves P ds" and pg: "paging ds r k s"
    and nx: "SearchQuery_next P s w = (Inl (StopIteration ''Maximum number of pages queried''), s1, w1)"
    and stb: "list_all settable ds"
    and st: "qp_start (sq_query s1) = Some st" and rw: "qp_rows (sq_query s1) = Some r'"
    and m: "st \<le> m * r'"
  shows "\<exists>s2 w2. SearchQuery_next P (s1\<lparr>max_pages := m\<rparr>) w1
                   = (Inr (Article_of (ds ! iter_counter s)), s2, w2)"
proof -
  from next_outcomes [OF sv pg nx] obtain k1 where rs: "sq_response s1 \<noteq> None"
    and ic: "iter_counter s1 = length (sq_articles s1)" and p1: "paging ds r k1 s1"
    and more: "k1 * nat r < length ds" and i1: "iter_counter s1 = iter_counter s"
    by auto
  from p1 st rw have r: "0 < r" "r' = r" and stk: "st = int k1 * r"
    unfolding paging_def by auto
  from m stk r have km: "int k1 \<le> m" by simp
  let ?s = "s1\<lparr>max_pages := m\<rparr>"
  obtain out s2 w2 where tn: "try_next P ?s w1 = (out, s2, w2)"
    by (cases "try_next P ?s w1") auto
  have "out = Inr (Article_of (ds ! iter_counter ?s))"
    using try_next_paging [OF sv paging_max_pages [OF p1] _ tn] rs ic more km
      accepted_page [OF stb, of "\<not> PY3 P"]
    by simp
  moreover have "SearchQuery_next P ?s w1 = try_next P ?s w1"
    using rs by (intro next_started) simp
  ultimately show ?thesis using tn i1 by simp
qed

lemma all_found_terminal:
  assumes sv: "serves P ds" and pg: "paging ds r k s"
    and nx: "SearchQuery_next P s w = (Inl (StopIteration ''All records found''), s1, w1)"
  shows "SearchQuery_next P (s1\<lparr>max_pages := m\<rparr>) w1
           = (Inl (StopIteration ''All records found''), s1\<lparr>max_pages := m\<rparr>, w1)"
proof -
  from next_outcomes [OF sv pg nx] obtain k1 where rs: "sq_response s1 \<noteq> None"
    and ic: "iter_counter s1 = length (sq_articles s1)" and p1: "paging ds r k1 s1"
    and fin: "length ds \<le> k1 * nat r"
    by auto
  let ?s = "s1\<lparr>max_pages := m\<rparr>"
  obtain out s2 w2 where tn: "try_next P ?s w1 = (out, s2, w2)"
    by (cases "try_next P ?s w1") auto
  have "out = Inl (StopIteration ''All records found'') \<and> s2 = ?s \<and> w2 = w1"
    using try_next_paging [OF sv paging_max_pages [OF p1] _ tn] rs ic fin by simp
  moreover have "SearchQuery_next P ?s w1 = try_next P ?s w1"
    using rs by (intro next_started) simp
  ultimately show ?thesis using tn by simp
qed

text \<open>
  C2.  A query is constructed with start offset 0 and iterated against a service holding
  the result set \<open>ds\<close>, with any assignments to \<open>max_pages\<close> in between.  The records
  yielded so far are the first documents of \<open>ds\<close>, wrapped, in order and without a gap
  or a repetition, so they are never more than \<open>len(ds)\<close>.  If the next call stops with
  \<open>Maximum number of pages queried\<close>, then after any assignment to \<open>max_pages\<close> a call
  that yields a record yields the one that follows the last one yielded; and when the
  documents can all be wrapped and the new \<open>max_pages\<close> is at least the number of pages
  fetched (\<open>start \<le> max_pages * rows\<close>), the call does yield it.  If the next call
  stops with \<open>All records found\<close>, every later call stops with it again and changes
  nothing, whatever \<open>max_pages\<close> is set to.
\<close>

theorem resume_after_max_pages:
  assumes sv: "serves P ds"
    and init: "SearchQuery_init (PY3 P) args = Inr s0" and st0: "qp_start (sq_query s0) = Some 0"
    and pl: "play P calls s0 w0 = (outs, s, w)"
    and nx: "SearchQuery_next P s w = (out, s1, w1)"
  shows "yielded outs = map Article_of (take (length (yielded outs)) ds)
    \<and> length (yielded outs) \<le> length ds
    \<and> (out = Inl (StopIteration ''Maximum number of pages queried'') \<longrightarrow>
         (\<forall>m x s2 w2. SearchQuery_next P (s1\<lparr>max_pages := m\<rparr>) w1 = (Inr x, s2, w2) \<longrightarrow>
            x = Article_of (ds ! length (yielded outs)) \<and> length (yielded outs) < length ds)
       \<and> (\<forall>m st r. list_all settable ds \<and> qp_start (sq_query s1) = Some st
              \<and> qp_rows (sq_query s1) = Some r \<and> st \<le> m * r \<longrightarrow>
            (\<exists>s2 w2. SearchQuery_next P (s1\<lparr>max_pages := m\<rparr>) w1
                       = (Inr (Article_of (ds ! length (yielded outs))), s2, w2))))
    \<and> (out = Inl (StopIteration ''All records found'') \<longrightarrow>
         (\<forall>m. SearchQuery_next P (s1\<lparr>max_pages := m\<rparr>) w1
                = (Inl (StopIteration ''All records found''), s1\<lparr>max_pages := m\<rparr>, w1)))"
proof -
  from fresh_paging(1) [OF init st0, of ds] obtain r where p0: "paging ds r 0 s0"
    by blast
  note i0 = fresh_paging(2) [OF init st0]
  from play_paging [OF sv p0 pl] i0 obtain k where pg: "paging ds r k s"
    and ys: "map Article_of (take (iter_counter s) ds) = yielded outs"
    and ic: "iter_counter s = length (yielded outs)"
    and le: "iter_counter s \<le> length ds"
    by auto
  have a: "yielded outs = map Article_of (take (length (yielded outs)) ds)"
    using ys ic by simp
  have b: "length (yielded outs) \<le> length ds" using le ic by simp
  from next_outcomes [OF sv pg nx] obtain k1 where p1: "paging ds r k1 s1"
    and i1: "\<forall>e. out = Inl e \<longrightarrow> iter_counter s1 = iter_counter s"
    by blast
  have c: "out = Inl (StopIteration ''Maximum number of pages queried'') \<longrightarrow>
         (\<forall>m x s2 w2. SearchQuery_next P (s1\<lparr>max_pages := m\<rparr>) w1 = (Inr x, s2, w2) \<longrightarrow>
            x = Article_of (ds ! length (yielded outs)) \<and> length (yielded outs) < length ds)"
    using resume_record [OF sv p1] i1 ic by auto
  have d: "out = Inl (StopIteration ''Maximum number of pages queried'') \<longrightarrow>
         (\<forall>m st r. list_all settable ds \<and> qp_start (sq_query s1) = Some st
              \<and> qp_rows (sq_query s1) = Some r \<and> st \<le> m * r \<longrightarrow>
            (\<exists>s2 w2. SearchQuery_next P (s1\<lparr>max_pages := m\<rparr>) w1
                       = (Inr (Article_of (ds ! length (yielded outs))), s2, w2)))"
    using resume_returns [OF sv pg] nx ic by auto
  have e: "out = Inl (StopIteration ''All records found'') \<longrightarrow>
         (\<forall>m. SearchQuery_next P (s1\<lparr>max_pages := m\<rparr>) w1
                = (Inl (StopIteration ''All records found''), s1\<lparr>max_pages := m\<rparr>, w1))"
    using all_found_terminal [OF sv pg] nx by auto
  from a b c d e show ?thesis by blast
qed


theorem resume_after_max_pages_witness:
  "yielded (fst (play (example_platform True (example_docs 5)) [Next, Next]
                  two_row_query empty_world))
     = [Article_of [(''id'', PyInt 0)], Article_of [(''id'', PyInt 1)]]
   \<and> fst (SearchQuery_next (example_platform True (example_docs 5))
            (fst (snd (play (example_platform True (example_docs 5)) [Next, Next]
                         two_row_query empty_world)))
            (snd (snd (play (example_platform True (example_docs 5)) [Next, Next]
                         two_row_query empty_world))))
       = Inl (StopIteration ''Maximum number of pages queried'')
   \<and> fst (SearchQuery_next (example_platform True (example_docs 5))
            ((fst (snd (SearchQuery_next (example_platform True (example_docs 5))
                 (fst (snd (play (example_platform True (example_docs 5)) [Next, Next]
                              two_row_query empty_world)))
                 (snd (snd (play (example_platform True (example_docs 5)) [Next, Next]
                              two_row_query empty_world))))))\<lparr>max_pages := 5\<rparr>)
            (snd (snd (SearchQuery_next (example_platform True (example_docs 5))
                 (fst (snd (play (example_platform True (example_docs 5)) [Next, Next]
                              two_row_query empty_world)))
                 (snd (snd (play (example_platform True (example_docs 5)) [Next, Next]
                              two_row_query empty_world)))))))
       = Inr (Article_of [(''id'', PyInt 2)])"
proof -
  let ?P = "example_platform True (example_docs 5)"
  let ?X = "play ?P [Next, Next] two_row_query empty_world"
  let ?Y = "SearchQuery_next ?P (fst (snd ?X)) (snd (snd ?X))"
  have sv: "serves ?P (example_docs 5)" by (rule example_serves)
  have init: "SearchQuery_init (PY3 ?P)
      (default_args\<lparr>arg_q := Some ''unittest'', arg_rows := Some 2, arg_max_pages := 0\<rparr>)
      = Inr two_row_query"
    by (simp add: SearchQuery_init_def build_query_def default_args_def two_row_query_def)
  have st0: "qp_start (sq_query two_row_query) = Some 0" by (simp add: two_row_query_def)
  have pl: "?X = (fst ?X, fst (snd ?X), snd (snd ?X))" by simp
  have nx: "?Y = (fst ?Y, fst (snd ?Y), snd (snd ?Y))" by simp
  have y2: "length (yielded (fst ?X)) = 2" by code_simp
  have "stop_message (fst ?Y) = Some ''Maximum number of pages queried''" by code_simp
  then have mx: "fst ?Y = Inl (StopIteration ''Maximum number of pages queried'')"
    by (rule stop_message_Some)
  have stb: "list_all settable (example_docs 5)" by code_simp
  have st1: "qp_start (sq_query (fst (snd ?Y))) = Some 2"
    and rw1: "qp_rows (sq_query (fst (snd ?Y))) = Some 2"
    by code_simp+
  have d2: "take 2 (example_docs 5) = [[(''id'', PyInt 0)], [(''id'', PyInt 1)]]"
    and d3: "example_docs 5 ! 2 = [(''id'', PyInt 2)]"
    by code_simp+
  note T = resume_after_max_pages [OF sv init st0 pl nx]
  from T y2 d2 have a: "yielded (fst ?X)
      = [Article_of [(''id'', PyInt 0)], Article_of [(''id'', PyInt 1)]]"
    by simp
  from T mx have "\<forall>m st r. list_all settable (example_docs 5)
        \<and> qp_start (sq_query (fst (snd ?Y))) = Some st
        \<and> qp_rows (sq_query (fst (snd ?Y))) = Some r \<and> st \<le> m * r \<longrightarrow>
      (\<exists>s2 w2. SearchQuery_next ?P ((fst (snd ?Y))\<lparr>max_pages := m\<rparr>) (snd (snd ?Y))
                 = (Inr (Article_of (example_docs 5 ! length (yielded (fst ?X)))), s2, w2))"
    by blast
  from this [rule_format, of 2 2 5] stb st1 rw1 y2 d3
  have c: "fst (SearchQuery_next ?P ((fst (snd ?Y))\<lparr>max_pages := 5\<rparr>) (snd (snd ?Y)))
      = Inr (Article_of [(''id'', PyInt 2)])"
    by auto
  from a mx c show ?thesis by blast
qed

section \<open>How many records an iteration yields\<close>

lemma drain_started:
  assumes sv: "serves P ds" and stb: "list_all settable ds"
  shows "paging ds r k s \<Longrightarrow> sq_response s \<noteq> None \<Longrightarrow> max_pages s + 1 = int M \<Longrightarrow> k \<le> M \<Longrightarrow>
         min (length ds) (M * nat r) - iter_counter s = d \<Longrightarrow> d < n \<Longrightarrow>
         \<exists>s' w'. drain n P s w =
           (map Article_of (take d (drop (iter_counter s) ds)),
            Some (StopIteration (if length ds \<le> M * nat r then ''All records found''
                                 else ''Maximum number of pages queried'')),
            s', w')
           \<and> (\<exists>k'. paging ds r k' s' \<and> k' \<le> M) \<and> sq_response s' \<noteq> None
           \<and> max_pages s' = max_pages s
           \<and> iter_counter s' = min (length ds) (M * nat r)"
proof (induction d arbitrary: s k w n)
  case 0
  note pg = "0.prems"(1) and rs = "0.prems"(2) and m = "0.prems"(3) and kM = "0.prems"(4)
  from pg have r: "0 < r" unfolding paging_def by blast
  from "0.prems"(6) obtain n' where n: "n = Suc n'" by (cases n) auto
  have len: "length (sq_articles s) = min (k * nat r) (length ds)" by (rule paging_length [OF pg])
  have kr: "k * nat r \<le> M * nat r" using kM by simp
  have ic: "iter_counter s = length (sq_articles s)"
    using "0.prems"(5) paging_cursor [OF pg] len kr by arith
  obtain out s' w' where tn: "try_next P s w = (out, s', w')" by (cases "try_next P s w") auto
  note t = try_next_paging [OF sv pg rs tn]
  have nx: "SearchQuery_next P s w = (out, s', w')" using next_started [OF rs] tn by simp
  have icT: "iter_counter s = min (length ds) (M * nat r)"
    using "0.prems"(5) paging_cursor [OF pg] len kr by arith
  have fin: "(\<exists>k'. paging ds r k' s \<and> k' \<le> M) \<and> sq_response s \<noteq> None
      \<and> max_pages s = max_pages s \<and> iter_counter s = min (length ds) (M * nat r)"
    using pg kM rs icT by blast
  show ?case
  proof (cases "length ds \<le> k * nat r")
    case True
    with t ic have "out = Inl (StopIteration ''All records found'')" "s' = s" by simp_all
    moreover from True kr have "length ds \<le> M * nat r" by (rule order_trans)
    ultimately show ?thesis using nx n fin by simp
  next
    case False
    then have lt: "k * nat r < length ds" by simp
    with ic len "0.prems"(5) have "M * nat r \<le> k * nat r" by arith
    with r have Mk: "M \<le> k" by simp
    with m have "max_pages s < int k" by simp
    with t ic lt have "out = Inl (StopIteration ''Maximum number of pages queried'')" "s' = s"
      by simp_all
    moreover from Mk kM lt have "\<not> length ds \<le> M * nat r" by simp
    ultimately show ?thesis using nx n fin by simp
  qed
next
  case (Suc d)
  note pg = Suc.prems(1) and rs = Suc.prems(2) and m = Suc.prems(3) and kM = Suc.prems(4)
  from pg have r: "0 < r" unfolding paging_def by blast
  from Suc.prems(6) obtain n' where n: "n = Suc n'" and dn: "d < n'" by (cases n) auto
  have len: "length (sq_articles s) = min (k * nat r) (length ds)" by (rule paging_length [OF pg])
  from Suc.prems(5) have icT: "iter_counter s < min (length ds) (M * nat r)"
    and d: "min (length ds) (M * nat r) - Suc (iter_counter s) = d"
    by arith+
  then have icN: "iter_counter s < length ds" by simp
  obtain out s' w' where tn: "try_next P s w = (out, s', w')" by (cases "try_next P s w") auto
  note t = try_next_paging [OF sv pg rs tn]
  have nx: "SearchQuery_next P s w = (out, s', w')" using next_started [OF rs] tn by simp
  have step: "out = Inr (Article_of (ds ! iter_counter s))
      \<and> (\<exists>k'. paging ds r k' s' \<and> k' \<le> M) \<and> sq_response s' \<noteq> None
      \<and> max_pages s' = max_pages s \<and> iter_counter s' = Suc (iter_counter s)"
  proof (cases "iter_counter s < length (sq_articles s)")
    case True
    with t have "out = Inr (Article_of (ds ! iter_counter s))"
      and s': "s' = s\<lparr>iter_counter := Suc (iter_counter s)\<rparr>"
      by simp_all
    moreover from paging_advance [OF pg True] s' have "paging ds r k s'" by simp
    ultimately show ?thesis using kM rs by auto
  next
    case False
    with paging_cursor [OF pg] have ic: "iter_counter s = length (sq_articles s)" by simp
    with len icT have lt: "k * nat r < length ds" and "k * nat r < M * nat r" by arith+
    then have kl: "k < M" by simp
    with m have km: "int k \<le> max_pages s" by simp
    from t ic lt km accepted_page [OF stb, of "\<not> PY3 P"]
    have "out = Inr (Article_of (ds ! iter_counter s))" "paging ds r (Suc k) s'"
      "iter_counter s' = Suc (iter_counter s)" "max_pages s' = max_pages s"
      "sq_response s' \<noteq> None"
      by simp_all
    with kl show ?thesis by auto
  qed
  then obtain k' where o: "out = Inr (Article_of (ds ! iter_counter s))"
    and p': "paging ds r k' s'" and k': "k' \<le> M" and r': "sq_response s' \<noteq> None"
    and m': "max_pages s' = max_pages s" and i': "iter_counter s' = Suc (iter_counter s)"
    by blast
  from Suc.IH [OF p' r' _ k' _ dn, of w'] m m' i' d
  obtain s2 w2 where dr: "drain n' P s' w' =
      (map Article_of (take d (drop (Suc (iter_counter s)) ds)),
       Some (StopIteration (if length ds \<le> M * nat r then ''All records found''
                            else ''Maximum number of pages queried'')), s2, w2)"
    and fin: "(\<exists>k'. paging ds r k' s2 \<and> k' \<le> M) \<and> sq_response s2 \<noteq> None
      \<and> max_pages s2 = max_pages s \<and> iter_counter s2 = min (length ds) (M * nat r)"
    by auto
  have "Article_of (ds ! iter_counter s) # map Article_of (take d (drop (Suc (iter_counter s)) ds))
        = map Article_of (take (Suc d) (drop (iter_counter s) ds))"
    using icN by (simp add: Cons_nth_drop_Suc [symmetric])
  with dr o nx n fin show ?case by simp
qed

lemma next_fresh:
  assumes sv: "serves P ds" and stb: "list_all settable ds"
    and pg: "paging ds r 0 s" and rs: "sq_response s = None"
  shows "\<exists>s1 w1. paging ds r 1 s1 \<and> sq_response s1 \<noteq> None
           \<and> iter_counter s1 = iter_counter s \<and> max_pages s1 = max_pages s
           \<and> execute P s w = (Inr (), s1, w1)"
proof -
  obtain o1 s1 w1 where ex: "execute P s w = (o1, s1, w1)" by (cases "execute P s w") auto
  note ep = execute_paging [OF sv pg ex]
  have "list_all (accepted (\<not> PY3 P)) (take (nat r) (drop (0 * nat r) ds))"
    by (rule accepted_page [OF stb])
  with ep have "o1 = Inr ()" by (cases o1) auto
  with ep ex show ?thesis by auto
qed

lemma drain_fresh:
  assumes sv: "serves P ds" and stb: "list_all settable ds"
    and init: "SearchQuery_init (PY3 P) args = Inr s0" and st0: "qp_start (sq_query s0) = Some 0"
    and rw: "qp_rows (sq_query s0) = Some r" and m: "0 \<le> max_pages s0"
    and n: "min (length ds) (nat (max_pages s0 + 1) * nat r) < n"
  shows "\<exists>s' w'. drain n P s0 w0 =
           (map Article_of (take (nat (max_pages s0 + 1) * nat r) ds),
            Some (StopIteration (if length ds \<le> nat (max_pages s0 + 1) * nat r
                                 then ''All records found''
                                 else ''Maximum number of pages queried'')),
            s', w')
           \<and> (\<exists>k'. paging ds r k' s' \<and> k' \<le> nat (max_pages s0 + 1))
           \<and> sq_response s' \<noteq> None \<and> max_pages s' = max_pages s0
           \<and> iter_counter s' = min (length ds) (nat (max_pages s0 + 1) * nat r)"
proof -
  let ?M = "nat (max_pages s0 + 1)"
  from fresh_paging(1) [OF init st0, of ds] rw have p0: "paging ds r 0 s0"
    unfolding paging_def by auto
  note i0 = fresh_paging(2) [OF init st0]
  have rs0: "sq_response s0 = None"
    using init by (auto simp: SearchQuery_init_def Let_def split: option.splits if_splits)
  from next_fresh [OF sv stb p0 rs0, of w0] obtain s1 w1 where p1: "paging ds r 1 s1"
    and r1: "sq_response s1 \<noteq> None" and i1: "iter_counter s1 = 0"
    and m1: "max_pages s1 = max_pages s0" and ex: "execute P s0 w0 = (Inr (), s1, w1)"
    using i0 by auto
  have M: "max_pages s1 + 1 = int ?M" and k: "1 \<le> ?M" using m m1 by simp_all
  have d: "min (length ds) (?M * nat r) - iter_counter s1 = min (length ds) (?M * nat r)"
    using i1 by simp
  from drain_started [OF sv stb p1 r1 M k d n]
  obtain s' w' where "drain n P s1 w1 =
      (map Article_of (take (min (length ds) (?M * nat r)) (drop (iter_counter s1) ds)),
       Some (StopIteration (if length ds \<le> ?M * nat r then ''All records found''
                            else ''Maximum number of pages queried'')), s', w')"
    and fin: "(\<exists>k'. paging ds r k' s' \<and> k' \<le> ?M) \<and> sq_response s' \<noteq> None
      \<and> max_pages s' = max_pages s0 \<and> iter_counter s' = min (length ds) (?M * nat r)"
    unfolding m1 by blast
  then have dr: "drain n P s1 w1 =
      (map Article_of (take (min (length ds) (?M * nat r)) ds),
       Some (StopIteration (if length ds \<le> ?M * nat r then ''All records found''
                            else ''Maximum number of pages queried'')), s', w')"
    using i1 by simp
  have nx: "SearchQuery_next P s0 w0 = SearchQuery_next P s1 w1"
    using rs0 ex next_started [OF r1] by (simp add: SearchQuery_next_def)
  from n obtain n' where "n = Suc n'" by (cases n) auto
  with nx have "drain n P s0 w0 = drain n P s1 w1" by simp
  moreover have "take (min (length ds) (?M * nat r)) ds = take (?M * nat r) ds"
    by (simp add: min_def)
  ultimately show ?thesis using dr fin by simp
qed


lemma length_example_docs: "length (example_docs n) = n"
  by (induction n) simp_all

lemma settable_example_docs: "list_all settable (example_docs n)"
  by (induction n)
     (simp_all add: settable_def reserved_names_def readonly_properties_def ascii_name_def)

lemma example_query_init:
  "SearchQuery_init py3
     (default_args\<lparr>arg_q := Some ''unittest'', arg_rows := Some 1, arg_max_pages := 20\<rparr>)
   = Inr example_query"
  by (simp add: SearchQuery_init_def build_query_def default_args_def example_query_def)

text \<open>
  C1.  How many records an iteration yields before it stops, and with which message.
  The query of the iteration test (\<open>rows = 1\<close>, \<open>max_pages = 20\<close>) against 28 matches
  yields 21 records and stops with \<open>Maximum number of pages queried\<close>; after
  \<open>max_pages = 500\<close> it yields the remaining 7 and stops with \<open>All records found\<close>.
  Against 21 matches it yields all 21 and stops with \<open>All records found\<close>.  These are
  instances of \<open>drain_fresh\<close>: \<open>min(N, rows * (max_pages + 1))\<close> records, one page more
  than \<open>min(N, rows * max_pages)\<close>.
\<close>

theorem max_pages_overrun:
  "length (fst (drain 30 (example_platform True (example_docs 28)) example_query empty_world))
     = 21
   \<and> fst (snd (drain 30 (example_platform True (example_docs 28)) example_query empty_world))
     = Some (StopIteration ''Maximum number of pages queried'')
   \<and> length (fst (drain 30 (example_platform True (example_docs 28))
        ((fst (snd (snd (drain 30 (example_platform True (example_docs 28)) example_query
                           empty_world))))\<lparr>max_pages := 500\<rparr>)
        (snd (snd (snd (drain 30 (example_platform True (example_docs 28)) example_query
                          empty_world))))))
     = 7
   \<and> fst (snd (drain 30 (example_platform True (example_docs 28))
        ((fst (snd (snd (drain 30 (example_platform True (example_docs 28)) example_query
                           empty_world))))\<lparr>max_pages := 500\<rparr>)
        (snd (snd (snd (drain 30 (example_platform True (example_docs 28)) example_query
                          empty_world))))))
     = Some (StopIteration ''All records found'')
   \<and> length (fst (drain 30 (example_platform True (example_docs 21)) example_query empty_world))
     = 21
   \<and> fst (snd (drain 30 (example_platform True (example_docs 21)) example_query empty_world))
     = Some (StopIteration ''All records found'')"
proof -
  let ?P = "example_platform True (example_docs 28)"
  let ?D = "drain 30 ?P example_query empty_world"
  have q: "qp_start (sq_query example_query) = Some 0" "qp_rows (sq_query example_query) = Some 1"
    "max_pages example_query = 20"
    by (simp_all add: example_query_def)
  have i: "\<And>ds. SearchQuery_init (PY3 (example_platform True ds))
      (default_args\<lparr>arg_q := Some ''unittest'', arg_rows := Some 1, arg_max_pages := 20\<rparr>)
      = Inr example_query"
    by (rule example_query_init)
  have sv: "serves ?P (example_docs 28)" by (rule example_serves)
  have "min (length (example_docs 28)) (nat (max_pages example_query + 1) * nat 1) < 30"
    by (simp add: q length_example_docs)
  from drain_fresh [OF sv settable_example_docs i q(1,2) _ this, of empty_world]
  obtain s1 w1 k1 where D: "?D = (map Article_of (take 21 (example_docs 28)),
        Some (StopIteration ''Maximum number of pages queried''), s1, w1)"
    and p1: "paging (example_docs 28) 1 k1 s1" and k1: "k1 \<le> 21"
    and r1: "sq_response s1 \<noteq> None" and m1: "max_pages s1 = 20" and i1: "iter_counter s1 = 21"
    by (auto simp: q length_example_docs)
  from D have a: "length (fst ?D) = 21"
    and b: "fst (snd ?D) = Some (StopIteration ''Maximum number of pages queried'')"
    and s1: "fst (snd (snd ?D)) = s1" and w1: "snd (snd (snd ?D)) = w1"
    by (simp_all add: length_example_docs)
  let ?s = "s1\<lparr>max_pages := 500\<rparr>"
  have M: "max_pages ?s + 1 = int 501" and kM: "k1 \<le> 501" using k1 by simp_all
  have rs: "sq_response ?s \<noteq> None" using r1 by simp
  have d: "min (length (example_docs 28)) (501 * nat 1) - iter_counter ?s = 7"
    using i1 by (simp add: length_example_docs)
  from drain_started [OF sv settable_example_docs paging_max_pages [OF p1] rs M kM d, of 30 w1]
  obtain s3 w3 where "drain 30 ?P ?s w1 =
      (map Article_of (take 7 (drop 21 (example_docs 28))),
       Some (StopIteration ''All records found''), s3, w3)"
    using i1 by (auto simp: length_example_docs)
  then have c: "length (fst (drain 30 ?P ?s w1)) = 7"
    and e: "fst (snd (drain 30 ?P ?s w1)) = Some (StopIteration ''All records found'')"
    by (simp_all add: length_example_docs)
  have "min (length (example_docs 21)) (nat (max_pages example_query + 1) * nat 1) < 30"
    by (simp add: q length_example_docs)
  from drain_fresh [OF example_serves settable_example_docs i q(1,2) _ this, of empty_world]
  obtain s2 w2 where
    "drain 30 (example_platform True (example_docs 21)) example_query empty_world =
       (map Article_of (take 21 (example_docs 21)),
        Some (StopIteration ''All records found''), s2, w2)"
    by (auto simp: q length_example_docs)
  then have f: "length (fst (drain 30 (example_platform True (example_docs 21)) example_query
                               empty_world)) = 21"
    and g: "fst (snd (drain 30 (example_platform True (example_docs 21)) example_query
                        empty_world)) = Some (StopIteration ''All records found'')"
    by (simp_all add: length_example_docs)
  from a b c e f g show ?thesis unfolding s1 w1 by blast
qed

section \<open>Lazy attributes\<close>

lemma lazy_not_special:
  assumes "f \<in> set lazy_fields"
  shows "f \<notin> set readonly_properties" and "f \<noteq> ''__class__''" and "f \<noteq> ''__dict__''"
    and "f \<noteq> ''__weakref__''" and "f \<noteq> ''_raw''"
  using assms by (auto simp: lazy_fields_def readonly_properties_def)

lemma wrap_warnings_requests: "requests (wrap_warnings ks w) = requests w"
proof (induction ks arbitrary: w)
  case Nil
  show ?case by (simp add: wrap_warnings_def)
next
  case (Cons k ks)
  have "wrap_warnings (k # ks) w = wrap_warnings ks (id_warning k w)"
    by (simp add: wrap_warnings_def)
  with Cons [of "id_warning k w"] id_warning_requests [of k w] show ?case by simp
qed

lemma back_query_init:
  "SearchQuery_init py3 (back_query_args P idv f) =
     Inr \<lparr>bq_token = None, sq_articles = [], sq_response = None, max_pages = 3,
          iter_counter = 0,
          sq_query = \<lparr>qp_q = Some (''id:'' @ str_format P idv), qp_fq = None,
                      qp_fl = Some (PyStr f), qp_sort = None, qp_start = Some 0,
                      qp_rows = Some 50\<rparr>\<rparr>"
  by (simp add: SearchQuery_init_def build_query_def back_query_args_def default_args_def)

lemma execute_page:
  assumes ok: "resp_ok (respond P (requests w) (sq_query s))"
    and i: "SolrResponse_init P (resp_text (respond P (requests w) (sq_query s))) = Inr sr"
    and d: "docs sr = PyList (map PyDict ks)" and stb: "list_all settable ks"
    and st: "qp_start (sq_query s) = Some st" and r: "qp_rows (sq_query s) = Some r"
  shows "execute P s w =
           (Inr (),
            s\<lparr>sq_response := Some (sr\<lparr>response := HttpResponse (respond P (requests w) (sq_query s)),
                                      sr_articles := Some (map Article_of ks)\<rparr>),
              sq_articles := sq_articles s @ map Article_of ks,
              sq_query := (sq_query s)\<lparr>qp_start := Some (st + r)\<rparr>\<rparr>,
            wrap_warnings ks (w\<lparr>requests := requests w @ [sq_query s]\<rparr>))"
proof -
  let ?resp = "respond P (requests w) (sq_query s)"
  let ?w1 = "w\<lparr>requests := requests w @ [sq_query s]\<rparr>"
  let ?sr1 = "sr\<lparr>response := HttpResponse ?resp\<rparr>"
  have l: "load_http_response (SolrResponse_init P) ?resp = Inr ?sr1"
    using ok i by (simp add: load_http_response_def)
  have f: "sr_articles ?sr1 = None" using SolrResponse_init_fresh [OF i] by simp
  have d1: "docs ?sr1 = PyList (map PyDict ks)" using d by simp
  have a: "SolrResponse_articles P ?sr1 ?w1 =
      (Inr (map Article_of ks), ?sr1\<lparr>sr_articles := Some (map Article_of ks)\<rparr>,
       wrap_warnings ks ?w1)"
    by (rule SolrResponse_articles_first [OF f d1 stb])
  show ?thesis
    using l a st r by (simp add: execute_def session_get_def Let_def)
qed

lemma get_field_resolves:
  assumes idv: "attrs a ''id'' = Some idv" "idv \<noteq> PyNone"
    and rw: "attrs a ''_raw'' = Some (PyDict kvs)"
    and req: "req = \<lparr>qp_q = Some (''id:'' @ str_format P idv), qp_fq = None,
                     qp_fl = Some (PyStr f), qp_sort = None, qp_start = Some 0,
                     qp_rows = Some 50\<rparr>"
    and ok: "resp_ok (respond P (requests w) req)"
    and i: "SolrResponse_init P (resp_text (respond P (requests w) req)) = Inr sr"
    and d: "docs sr = PyList (map PyDict (doc # rest))" and stb: "list_all settable (doc # rest)"
    and v: "attrs (Article_of doc) f = Some v" and lz: "f \<in> set lazy_fields"
  shows "Article_get_field (Suc n) P a f w =
           Some (Inr v, a\<lparr>attrs := (attrs a)(''_raw'' \<mapsto> PyDict (dict_set f v kvs))\<rparr>,
                 wrap_warnings (doc # rest) (w\<lparr>requests := requests w @ [req]\<rparr>))"
proof -
  let ?sq = "\<lparr>bq_token = None, sq_articles = [], sq_response = None, max_pages = 3,
              iter_counter = 0, sq_query = req\<rparr>"
  let ?w1 = "wrap_warnings (doc # rest) (w\<lparr>requests := requests w @ [req]\<rparr>)"
  have bq: "SearchQuery_init (PY3 P) (back_query_args P idv f) = Inr ?sq"
    unfolding req by (rule back_query_init)
  have q: "sq_query ?sq = req" by simp
  have st: "qp_start (sq_query ?sq) = Some 0" and rw50: "qp_rows (sq_query ?sq) = Some 50"
    by (simp_all add: req)
  from execute_page [of P w ?sq sr "doc # rest" 0 50, unfolded q, OF ok i d stb] st rw50
  obtain s1 where ex: "execute P ?sq w = (Inr (), s1, ?w1)"
    and a1: "sq_articles s1 = map Article_of (doc # rest)" and i1: "iter_counter s1 = 0"
    by (simp add: q)
  have "try_next P s1 ?w1 = (Inr (Article_of doc), s1\<lparr>iter_counter := Suc 0\<rparr>, ?w1)"
    using a1 i1 by (simp add: try_next_def)
  with ex have nx: "SearchQuery_next P ?sq w
      = (Inr (Article_of doc), s1\<lparr>iter_counter := Suc 0\<rparr>, ?w1)"
    by (simp add: SearchQuery_next_def)
  have ga: "Article_getattr n P (Article_of doc) f ?w1
      = Some (Inr (Value v), Article_of doc, ?w1)"
    using v lazy_not_special [OF lz] by simp
  show ?thesis
    using idv rw bq nx ga by simp
qed

text \<open>
  C4 (as amended).  Let \<open>f\<close> be one of the attributes declared with \<open>cached_property\<close>
  (\<open>abstract\<close>, \<open>aff\<close>, \<open>author\<close>, \<open>citation_count\<close>, \<open>bibstem\<close>, \<open>database\<close>,
  \<open>identifier\<close>, \<open>first_author_norm\<close>, \<open>issue\<close>, \<open>keyword\<close>, \<open>page\<close>, \<open>property\<close>,
  \<open>pub\<close>, \<open>pubdate\<close>, \<open>read_count\<close>, \<open>title\<close>, \<open>volume\<close>, \<open>year\<close>), absent from the
  record.  Reading it on a record that has no \<open>id\<close>, or \<open>None\<close> as \<open>id\<close>, raises
  \<open>APIResponseError\<close> and sends nothing.  On a record with an \<open>id\<close> that is not
  \<open>None\<close> and with a dictionary as \<open>_raw\<close>, suppose the answer to the back-query
  \<open>q = id:<id>\<close>, \<open>fl = f\<close> is a 2xx response with a well-formed envelope whose \<open>docs\<close>
  is a non-empty list of objects with ASCII field names, none of them \<open>self\<close>,
  \<open>__class__\<close>, \<open>__dict__\<close>, \<open>__weakref__\<close> or a read-only property, and that the record
  made of the first one has the attribute \<open>f\<close>.  Then the first read sends exactly that
  one request and returns the value; it stores the value in the instance dictionary and
  under \<open>f\<close> in \<open>_raw\<close>, leaves the other attributes as they were, and every later read
  of \<open>f\<close> returns the value and sends nothing.  Reading a name that is not one of the
  eighteen sends no request and leaves the record as it is.
\<close>

theorem lazy_field_resolution:
  assumes lz: "f \<in> set lazy_fields" and ab: "attrs a f = None"
  shows
    "((attrs a ''id'' = None \<or> attrs a ''id'' = Some PyNone) \<longrightarrow>
        Article_getattr fuel P a f w =
          Some (Inl (APIResponseError ''Cannot query an article without an id''), a, w))
     \<and> (attrs a ''id'' = Some idv \<and> idv \<noteq> PyNone \<and> attrs a ''_raw'' = Some (PyDict kvs)
          \<and> req = \<lparr>qp_q = Some (''id:'' @ str_format P idv), qp_fq = None,
                    qp_fl = Some (PyStr f), qp_sort = None, qp_start = Some 0,
                    qp_rows = Some 50\<rparr>
          \<and> resp_ok (respond P (requests w) req)
          \<and> SolrResponse_init P (resp_text (respond P (requests w) req)) = Inr sr
          \<and> docs sr = PyList (map PyDict (doc # rest)) \<and> list_all settable (doc # rest)
          \<and> attrs (Article_of doc) f = Some v \<longrightarrow>
         (\<exists>a' w'. Article_getattr (Suc n) P a f w = Some (Inr (Value v), a', w')
            \<and> a' = a\<lparr>attrs := (attrs a)(''_raw'' \<mapsto> PyDict (dict_set f v kvs), f \<mapsto> v)\<rparr>
            \<and> map_of (dict_set f v kvs) f = Some v
            \<and> requests w' = requests w @ [req]
            \<and> (\<forall>g. g \<noteq> f \<and> g \<noteq> ''_raw'' \<longrightarrow> attrs a' g = attrs a g)
            \<and> (\<forall>n' w''. Article_getattr n' P a' f w'' = Some (Inr (Value v), a', w''))))
     \<and> (g \<notin> set lazy_fields \<longrightarrow> (\<exists>out. Article_getattr fuel P b g w = Some (out, b, w)))"
proof (intro conjI impI)
  note sp = lazy_not_special [OF lz]
  assume "attrs a ''id'' = None \<or> attrs a ''id'' = Some PyNone"
  then show "Article_getattr fuel P a f w =
      Some (Inl (APIResponseError ''Cannot query an article without an id''), a, w)"
    using lz ab sp by auto
next
  note sp = lazy_not_special [OF lz]
  assume h: "attrs a ''id'' = Some idv \<and> idv \<noteq> PyNone \<and> attrs a ''_raw'' = Some (PyDict kvs)
          \<and> req = \<lparr>qp_q = Some (''id:'' @ str_format P idv), qp_fq = None,
                    qp_fl = Some (PyStr f), qp_sort = None, qp_start = Some 0,
                    qp_rows = Some 50\<rparr>
          \<and> resp_ok (respond P (requests w) req)
          \<and> SolrResponse_init P (resp_text (respond P (requests w) req)) = Inr sr
          \<and> docs sr = PyList (map PyDict (doc # rest)) \<and> list_all settable (doc # rest)
          \<and> attrs (Article_of doc) f = Some v"
  let ?a1 = "a\<lparr>attrs := (attrs a)(''_raw'' \<mapsto> PyDict (dict_set f v kvs))\<rparr>"
  let ?a' = "a\<lparr>attrs := (attrs a)(''_raw'' \<mapsto> PyDict (dict_set f v kvs), f \<mapsto> v)\<rparr>"
  let ?w' = "wrap_warnings (doc # rest) (w\<lparr>requests := requests w @ [req]\<rparr>)"
  from h have h1: "attrs a ''id'' = Some idv" and h2: "idv \<noteq> PyNone"
    and h0: "attrs a ''_raw'' = Some (PyDict kvs)"
    and h3: "req = \<lparr>qp_q = Some (''id:'' @ str_format P idv), qp_fq = None,
                    qp_fl = Some (PyStr f), qp_sort = None, qp_start = Some 0,
                    qp_rows = Some 50\<rparr>"
    and h4: "resp_ok (respond P (requests w) req)"
    and h5: "SolrResponse_init P (resp_text (respond P (requests w) req)) = Inr sr"
    and h6: "docs sr = PyList (map PyDict (doc # rest))"
    and h7: "list_all settable (doc # rest)" and h8: "attrs (Article_of doc) f = Some v"
    by blast+
  have gf: "Article_get_field (Suc n) P a f w = Some (Inr v, ?a1, ?w')"
    by (rule get_field_resolves [OF h1 h2 h0 h3 h4 h5 h6 h7 h8 lz])
  have first: "Article_getattr (Suc n) P a f w = Some (Inr (Value v), ?a', ?w')"
    using lz ab sp gf by simp
  have ds: "map_of (dict_set f v kvs) f = Some v"
    by (induction kvs) simp_all
  have rq: "requests ?w' = requests w @ [req]" by (simp add: wrap_warnings_requests)
  have other: "\<forall>g. g \<noteq> f \<and> g \<noteq> ''_raw'' \<longrightarrow> attrs ?a' g = attrs a g" by simp
  have again: "\<forall>n' w''. Article_getattr n' P ?a' f w'' = Some (Inr (Value v), ?a', w'')"
    using sp by simp
  from first ds rq other again
  show "\<exists>a' w'. Article_getattr (Suc n) P a f w = Some (Inr (Value v), a', w')
            \<and> a' = a\<lparr>attrs := (attrs a)(''_raw'' \<mapsto> PyDict (dict_set f v kvs), f \<mapsto> v)\<rparr>
            \<and> map_of (dict_set f v kvs) f = Some v
            \<and> requests w' = requests w @ [req]
            \<and> (\<forall>g. g \<noteq> f \<and> g \<noteq> ''_raw'' \<longrightarrow> attrs a' g = attrs a g)
            \<and> (\<forall>n' w''. Article_getattr n' P a' f w'' = Some (Inr (Value v), a', w''))"
    by blast
next
  assume "g \<notin> set lazy_fields"
  then show "\<exists>out. Article_getattr fuel P b g w = Some (out, b, w)"
    by (cases "attrs b g") simp_all
qed

theorem lazy_field_resolution_counterexample:
  "Article_getattr 5 (example_platform True abstract_docs)
     (Article_of [(''id'', PyStr ''1'')]) ''doi'' empty_world
     = Some (Inl (AttributeError ''doi''), Article_of [(''id'', PyStr ''1'')], empty_world)
   \<and> Article_getattr 5 (example_platform True abstract_docs)
       (Article_of []) ''bibcode'' empty_world
     = Some (Inl (AttributeError ''bibcode''), Article_of [], empty_world)"
  by (simp add: Article_of_def setattr_def lazy_fields_def readonly_properties_def
      class_attributes_def example_platform_def)

theorem lazy_field_resolution_witness:
  "Article_getattr 1 (example_platform True abstract_docs)
     (Article_of [(''bibcode'', PyStr ''2013A&A...552A.143S'')]) ''abstract'' empty_world
     = Some (Inl (APIResponseError ''Cannot query an article without an id''),
             Article_of [(''bibcode'', PyStr ''2013A&A...552A.143S'')], empty_world)
   \<and> (\<exists>a' w'. Article_getattr 1 (example_platform True abstract_docs)
                 (Article_of [(''id'', PyStr ''1''), (''bibcode'', PyStr ''2013A&A...552A.143S'')])
                 ''abstract'' empty_world
               = Some (Inr (Value (PyStr ''We present the results'')), a', w')
          \<and> attrs a' ''abstract'' = Some (PyStr ''We present the results'')
          \<and> attrs a' ''_raw'' =
              Some (PyDict [(''id'', PyStr ''1''), (''bibcode'', PyStr ''2013A&A...552A.143S''),
                            (''abstract'', PyStr ''We present the results'')])
          \<and> requests w' = [\<lparr>qp_q = Some ''id:1'', qp_fq = None, qp_fl = Some (PyStr ''abstract''),
                             qp_sort = None, qp_start = Some 0, qp_rows = Some 50\<rparr>]
          \<and> Article_getattr 1 (example_platform True abstract_docs) a' ''abstract'' w'
               = Some (Inr (Value (PyStr ''We present the results'')), a', w'))
   \<and> Article_getattr 1 (example_platform True abstract_docs)
       (Article_of [(''id'', PyStr ''1'')]) ''keys'' empty_world
     = Some (Inr (Provided ''keys''), Article_of [(''id'', PyStr ''1'')], empty_world)"
proof (intro conjI)
  let ?P = "example_platform True abstract_docs"
  have lz: "''abstract'' \<in> set lazy_fields" by (simp add: lazy_fields_def)
  show "Article_getattr 1 ?P
     (Article_of [(''bibcode'', PyStr ''2013A&A...552A.143S'')]) ''abstract'' empty_world
     = Some (Inl (APIResponseError ''Cannot query an article without an id''),
             Article_of [(''bibcode'', PyStr ''2013A&A...552A.143S'')], empty_world)"
    using lazy_field_resolution [where f = "''abstract''"
        and a = "Article_of [(''bibcode'', PyStr ''2013A&A...552A.143S'')]"
        and fuel = 1 and P = ?P and w = empty_world, OF lz]
    by (simp add: Article_of_def setattr_def readonly_properties_def)
next
  let ?P = "example_platform True abstract_docs"
  let ?kvs = "[(''id'', PyStr ''1''), (''bibcode'', PyStr ''2013A&A...552A.143S'')]"
  let ?a = "Article_of ?kvs"
  let ?req = "\<lparr>qp_q = Some ''id:1'', qp_fq = None, qp_fl = Some (PyStr ''abstract''),
                qp_sort = None, qp_start = Some 0, qp_rows = Some 50\<rparr>"
  let ?v = "PyStr ''We present the results''"
  let ?doc = "[(''abstract'', ?v), (''id'', PyStr ''1'')]"
  have lz: "''abstract'' \<in> set lazy_fields" by (simp add: lazy_fields_def)
  have ab: "attrs ?a ''abstract'' = None"
    by (simp add: Article_of_def setattr_def readonly_properties_def)
  have idv: "attrs ?a ''id'' = Some (PyStr ''1'')"
    by (simp add: Article_of_def setattr_def readonly_properties_def)
  have rw: "attrs ?a ''_raw'' = Some (PyDict ?kvs)"
    by (simp add: Article_of_def setattr_def readonly_properties_def)
  have dv: "attrs (Article_of ?doc) ''abstract'' = Some ?v"
    by (simp add: Article_of_def setattr_def readonly_properties_def)
  have rq: "?req = \<lparr>qp_q = Some (''id:'' @ str_format ?P (PyStr ''1'')), qp_fq = None,
                    qp_fl = Some (PyStr ''abstract''), qp_sort = None, qp_start = Some 0,
                    qp_rows = Some 50\<rparr>"
    by (simp add: example_platform_def)
  have resp: "respond ?P (requests empty_world) ?req =
      \<lparr>resp_ok = True, resp_text = replicate 0 CHR ''s'' @ replicate 50 CHR ''r'',
       resp_headers = []\<rparr>"
    by (simp add: example_platform_def example_respond_def)
  from example_init_page [of True abstract_docs 0 50] obtain sr where
    i: "SolrResponse_init ?P (replicate 0 CHR ''s'' @ replicate 50 CHR ''r'') = Inr sr"
    and d: "docs sr = PyList (map PyDict (?doc # []))"
    by (auto simp: abstract_docs_def)
  have stb: "list_all settable (?doc # [])"
    by (simp add: settable_def reserved_names_def readonly_properties_def ascii_name_def)
  from lazy_field_resolution [where f = "''abstract''" and a = ?a and idv = "PyStr ''1''"
      and kvs = ?kvs and req = ?req and P = ?P and w = empty_world and sr = sr
      and doc = ?doc and rest = "[]" and v = ?v and n = 0 and fuel = 1 and g = "''keys''"
      and b = ?a, OF lz ab] idv rw dv rq resp i d stb
  obtain a' w' where g: "Article_getattr 1 ?P ?a ''abstract'' empty_world
        = Some (Inr (Value ?v), a', w')"
    and a': "a' = ?a\<lparr>attrs := (attrs ?a)(''_raw'' \<mapsto> PyDict (dict_set ''abstract'' ?v ?kvs),
                                         ''abstract'' \<mapsto> ?v)\<rparr>"
    and r': "requests w' = requests empty_world @ [?req]"
    and again: "\<forall>n' w''. Article_getattr n' ?P a' ''abstract'' w'' = Some (Inr (Value ?v), a', w'')"
    by (auto simp del: Article_getattr.simps Article_get_field.simps)
  from a' have "attrs a' ''abstract'' = Some ?v"
    "attrs a' ''_raw'' = Some (PyDict (?kvs @ [(''abstract'', ?v)]))" by simp_all
  moreover from r' have "requests w' = [?req]" by (simp add: empty_world_def)
  ultimately show "\<exists>a' w'. Article_getattr 1 ?P ?a ''abstract'' empty_world
               = Some (Inr (Value ?v), a', w')
          \<and> attrs a' ''abstract'' = Some ?v
          \<and> attrs a' ''_raw'' = Some (PyDict [(''id'', PyStr ''1''),
                 (''bibcode'', PyStr ''2013A&A...552A.143S''), (''abstract'', ?v)])
          \<and> requests w' = [?req]
          \<and> Article_getattr 1 ?P a' ''abstract'' w' = Some (Inr (Value ?v), a', w')"
    using g again by auto
next
  let ?P = "example_platform True abstract_docs"
  show "Article_getattr 1 ?P (Article_of [(''id'', PyStr ''1'')]) ''keys'' empty_world
     = Some (Inr (Provided ''keys''), Article_of [(''id'', PyStr ''1'')], empty_world)"
    by (simp add: Article_of_def setattr_def lazy_fields_def readonly_properties_def
        class_attributes_def)
qed

end
